theory Spec2Isabelle
  imports Complex_Main "HOL-Library.Word" "HOL-Library.AList"
begin

unbundle bit_operations_syntax

section \<open>Hot state cache: data model\<close>

text \<open>
  The package \<^verbatim>\<open>core/state/hotcache\<close> mirrors the storage of watched contracts
  into snapshots. The Go types are embedded as follows.
  \<^item> \<^verbatim>\<open>common.Address\<close> (\<^verbatim>\<open>[20]byte\<close>) is a 160-bit word and \<^verbatim>\<open>common.Hash\<close>
    (\<^verbatim>\<open>[32]byte\<close>) a 256-bit word, both read big-endian.
  \<^item> \<^verbatim>\<open>*big.Int\<close> is \<open>int\<close>; \<^verbatim>\<open>uint64\<close> and \<^verbatim>\<open>uint32\<close> are words.
  \<^item> A Go \<^verbatim>\<open>map[K]V\<close> is an association list with distinct keys: \<open>map_of\<close> is the
    lookup, \<open>AList.update\<close> the store \<^verbatim>\<open>m[k] = v\<close>, and the order of the list stands for
    the order in which a \<^verbatim>\<open>range\<close> loop visits the entries (Go leaves it unspecified).
  \<^item> Errors are values of the datatype \<open>error\<close>; a panic is an outcome of its own.
\<close>

type_synonym address = "160 word"
type_synonym hash = "256 word"
type_synonym uint64 = "64 word"
type_synonym uint32 = "32 word"
type_synonym byte = "8 word"

type_synonym ('k, 'v) gomap = "('k \<times> 'v) list"

datatype ContractType =
    ContractTypeUnknown
  | ContractTypeUniswapV2
  | ContractTypeUniswapV3
  | ContractTypeAave
  | ContractTypeCurve

text \<open>
  The errors the package builds. \<open>Errorf\<close> is \<^verbatim>\<open>fmt.Errorf\<close> with a constant message;
  the other constructors keep the arguments of the format string:
  \<open>FailedToDecode t e\<close> is \<^verbatim>\<open>"failed to decode %s: %w"\<close>,
  \<open>InconsistentState a s cached canonical\<close> wraps \<^verbatim>\<open>ErrInconsistentState\<close> with
  \<^verbatim>\<open>"contract=%s slot=%s cached=%s canonical=%s"\<close>, and
  \<open>FailedToReplay n e\<close> is \<^verbatim>\<open>"failed to replay block %d: %w"\<close>.
\<close>

datatype error =
    ErrNotFound
  | ErrNotWatched
  | Errorf string
  | FailedToDecode ContractType error
  | InconsistentState address hash hash hash
  | FailedToReplay uint64 error

record UniswapV2State =
  Token0 :: address
  Token1 :: address
  Reserve0 :: int
  Reserve1 :: int
  BlockTimestampLast :: uint32
  Price0Cumulative :: int
  Price1Cumulative :: int
  KLast :: int

section \<open>Bytes of a hash, big integers from bytes\<close>

text \<open>
  \<^verbatim>\<open>Hash.Bytes()\<close> returns the 32 bytes of the array, most significant first.
  \<^verbatim>\<open>big.Int.SetBytes\<close> reads a byte slice as a big-endian unsigned integer.
  \<^verbatim>\<open>common.BytesToAddress\<close> keeps the last 20 bytes of a longer slice and right-aligns a
  shorter one in the 20-byte array. \<^verbatim>\<open>common.BigToHash\<close> takes the bytes of the
  absolute value and keeps the last 32: the low 256 bits.
\<close>

definition Bytes :: "hash \<Rightarrow> byte list" where
  "Bytes h = map (\<lambda>i. ucast (drop_bit (8 * (31 - i)) h)) [0..<32]"

definition SetBytes :: "byte list \<Rightarrow> int" where
  "SetBytes bs = foldl (\<lambda>acc b. acc * 256 + uint b) 0 bs"

definition BytesToAddress :: "byte list \<Rightarrow> address" where
  "BytesToAddress b =
     (let b' = (if length b > 20 then drop (length b - 20) b else b)
      in word_of_int (SetBytes b'))"

definition BigToHash :: "int \<Rightarrow> hash" where
  "BigToHash n = word_of_int \<bar>n\<bar>"

section \<open>The Uniswap V2 decoder\<close>

definition uniswapV2SlotToken0 :: hash where
  "uniswapV2SlotToken0 = BigToHash 6"

definition uniswapV2SlotToken1 :: hash where
  "uniswapV2SlotToken1 = BigToHash 7"

definition uniswapV2SlotReserves :: hash where
  "uniswapV2SlotReserves = BigToHash 8"

definition uniswapV2SlotPrice0Cumulative :: hash where
  "uniswapV2SlotPrice0Cumulative = BigToHash 9"

definition uniswapV2SlotPrice1Cumulative :: hash where
  "uniswapV2SlotPrice1Cumulative = BigToHash 10"

definition uniswapV2SlotKLast :: hash where
  "uniswapV2SlotKLast = BigToHash 11"

definition UniswapV2_RequiredSlots :: "hash list" where
  "UniswapV2_RequiredSlots =
     [uniswapV2SlotToken0, uniswapV2SlotToken1, uniswapV2SlotReserves,
      uniswapV2SlotPrice0Cumulative, uniswapV2SlotPrice1Cumulative, uniswapV2SlotKLast]"

text \<open>\<^verbatim>\<open>big.Int.Uint64\<close>: the low 64 bits of the absolute value.\<close>

definition Uint64 :: "int \<Rightarrow> uint64" where
  "Uint64 x = word_of_int \<bar>x\<bar>"

text \<open>
  The state \<^verbatim>\<open>Decode\<close> starts from: every \<^verbatim>\<open>*big.Int\<close> field is \<^verbatim>\<open>new(big.Int)\<close>,
  the other fields have their zero values.
\<close>

definition UniswapV2State_init :: UniswapV2State where
  "UniswapV2State_init =
     \<lparr>Token0 = 0, Token1 = 0, Reserve0 = 0, Reserve1 = 0, BlockTimestampLast = 0,
      Price0Cumulative = 0, Price1Cumulative = 0, KLast = 0\<rparr>"

text \<open>The reserves block of \<^verbatim>\<open>Decode\<close>: the body of \<^verbatim>\<open>if reservesValue, ok := ...; ok\<close>.\<close>

definition decode_reserves :: "hash \<Rightarrow> UniswapV2State \<Rightarrow> UniswapV2State" where
  "decode_reserves reservesValue state =
     (let bytes = Bytes reservesValue in
      if length bytes = 32 then
        (let fullValue = SetBytes bytes;
             mask112 = push_bit 112 (1::int) - 1;
             shifted = drop_bit 112 fullValue;
             timestampShifted = drop_bit 224 fullValue
         in state\<lparr>Reserve0 := fullValue AND mask112,
                  Reserve1 := shifted AND mask112,
                  BlockTimestampLast := ucast (Uint64 timestampShifted)\<rparr>)
      else state)"

definition decode_optional :: "(hash, hash) gomap \<Rightarrow> hash \<Rightarrow> int \<Rightarrow> int" where
  "decode_optional slots key old =
     (case map_of slots key of Some v \<Rightarrow> SetBytes (Bytes v) | None \<Rightarrow> old)"

definition UniswapV2Decoder_Decode :: "(hash, hash) gomap \<Rightarrow> error + UniswapV2State" where
  "UniswapV2Decoder_Decode slots =
     (let state = UniswapV2State_init in
      case map_of slots uniswapV2SlotToken0 of
        None \<Rightarrow> Inl (Errorf ''missing token0 slot'')
      | Some token0Value \<Rightarrow>
     (let state = state\<lparr>Token0 := BytesToAddress (Bytes token0Value)\<rparr> in
      case map_of slots uniswapV2SlotToken1 of
        None \<Rightarrow> Inl (Errorf ''missing token1 slot'')
      | Some token1Value \<Rightarrow>
     (let state = state\<lparr>Token1 := BytesToAddress (Bytes token1Value)\<rparr> in
      case map_of slots uniswapV2SlotReserves of
        None \<Rightarrow> Inl (Errorf ''missing reserves slot'')
      | Some reservesValue \<Rightarrow>
     (let state = decode_reserves reservesValue state;
          state = state\<lparr>Price0Cumulative :=
                    decode_optional slots uniswapV2SlotPrice0Cumulative (Price0Cumulative state)\<rparr>;
          state = state\<lparr>Price1Cumulative :=
                    decode_optional slots uniswapV2SlotPrice1Cumulative (Price1Cumulative state)\<rparr>;
          state = state\<lparr>KLast :=
                    decode_optional slots uniswapV2SlotKLast (KLast state)\<rparr>
      in Inr state))))"

section \<open>Decoders, contract states, snapshots, the cache\<close>

text \<open>
  \<^verbatim>\<open>ContractState.Decoded\<close> is an \<^verbatim>\<open>interface{}\<close>: the record a decoder returned, or
  \<^verbatim>\<open>nil\<close>. The Uniswap V2 record is the one decoder of the package; what any other
  decoder returns is opaque.
\<close>

datatype decoded = DecodedUniswapV2 UniswapV2State | DecodedOther nat

text \<open>
  The interface \<^verbatim>\<open>ContractDecoder\<close> with its three methods. \<open>UniswapV2Decoder\<close> is the
  implementation of the package; \<open>OtherDecoder t slots dec\<close> is any other implementation,
  given by what its methods return.
\<close>

datatype ContractDecoder =
    UniswapV2Decoder
  | OtherDecoder ContractType "hash list" "(hash, hash) gomap \<Rightarrow> error + decoded option"

fun decoder_Type :: "ContractDecoder \<Rightarrow> ContractType" where
  "decoder_Type UniswapV2Decoder = ContractTypeUniswapV2"
| "decoder_Type (OtherDecoder t slots dec) = t"

fun decoder_RequiredSlots :: "ContractDecoder \<Rightarrow> hash list" where
  "decoder_RequiredSlots UniswapV2Decoder = UniswapV2_RequiredSlots"
| "decoder_RequiredSlots (OtherDecoder t slots dec) = slots"

fun decoder_Decode :: "ContractDecoder \<Rightarrow> (hash, hash) gomap \<Rightarrow> error + decoded option" where
  "decoder_Decode UniswapV2Decoder slots =
     (case UniswapV2Decoder_Decode slots of
        Inl err \<Rightarrow> Inl err
      | Inr state \<Rightarrow> Inr (Some (DecodedUniswapV2 state)))"
| "decoder_Decode (OtherDecoder t rs dec) slots = dec slots"

record ContractState =
  Address :: address
  Type :: ContractType
  RawSlots :: "(hash, hash) gomap"
  Decoded :: "decoded option"
  LastUpdated :: uint64

record Snapshot =
  BlockNumber :: uint64
  BlockHash :: hash
  BlockTime :: uint64
  Contracts :: "(address, ContractState) gomap"

text \<open>
  \<^verbatim>\<open>Config.MaxSnapshots\<close> is a Go \<^verbatim>\<open>int\<close>: a 64-bit word, read as signed by \<open>sint\<close>;
  the conversion \<^verbatim>\<open>uint64(c.config.MaxSnapshots)\<close> keeps the bits.
\<close>

record Config =
  Enabled :: bool
  Watchlist :: "address list"
  ShadowMode :: bool
  MaxSnapshots :: uint64

record Statistics =
  Hits :: uint64
  Misses :: uint64
  Updates :: uint64
  ValidationErrors :: uint64
  ReorgCount :: uint64

record Cache =
  config :: Config
  current :: Snapshot
  snapshots :: "(hash, Snapshot) gomap"
  watchlist :: "(address, bool) gomap"
  decoders :: "(address, ContractDecoder) gomap"
  stats :: Statistics

text \<open>
  What the cache reads of a \<^verbatim>\<open>types.Header\<close>: \<^verbatim>\<open>Number\<close> (a \<^verbatim>\<open>*big.Int\<close>), the result of
  \<^verbatim>\<open>Hash()\<close>, and \<^verbatim>\<open>Time\<close>. \<^verbatim>\<open>ParentHash\<close> is a field of the header that the package
  never reads.
\<close>

record Header =
  Number :: int
  Hash :: hash
  ParentHash :: hash
  Time :: uint64

text \<open>\<^verbatim>\<open>StateReader.GetState\<close>.\<close>

type_synonym StateReader = "address \<Rightarrow> hash \<Rightarrow> hash"

text \<open>How a call ends: it returns, or it panics with a message.\<close>

datatype 'a outcome = Returned 'a | Panic string

definition New :: "Config \<Rightarrow> Cache" where
  "New config0 =
     (let config1 = (if MaxSnapshots config0 = 0 then config0\<lparr>MaxSnapshots := 64\<rparr> else config0);
          watchlist1 = foldl (\<lambda>m addr. AList.update addr True m) [] (Watchlist config1);
          initial = \<lparr>BlockNumber = 0, BlockHash = 0, BlockTime = 0, Contracts = []\<rparr>
      in \<lparr>config = config1, current = initial, snapshots = [], watchlist = watchlist1,
          decoders = [],
          stats = \<lparr>Hits = 0, Misses = 0, Updates = 0, ValidationErrors = 0, ReorgCount = 0\<rparr>\<rparr>)"

definition IsEnabled :: "Cache \<Rightarrow> bool" where
  "IsEnabled c = Enabled (config c)"

definition IsWatched :: "Cache \<Rightarrow> address \<Rightarrow> bool" where
  "IsWatched c addr = (case map_of (watchlist c) addr of Some b \<Rightarrow> b | None \<Rightarrow> False)"

definition RegisterDecoder :: "Cache \<Rightarrow> address \<Rightarrow> ContractDecoder \<Rightarrow> Cache" where
  "RegisterDecoder c addr decoder = c\<lparr>decoders := AList.update addr decoder (decoders c)\<rparr>"

definition GetSnapshot :: "Cache \<Rightarrow> Snapshot" where
  "GetSnapshot c = current c"

section \<open>The updater\<close>

text \<open>The loop of \<^verbatim>\<open>updateContract\<close> over the required slots.\<close>

definition read_slots ::
  "address \<Rightarrow> StateReader \<Rightarrow> hash list \<Rightarrow> (hash, hash) gomap \<Rightarrow> (hash, hash) gomap" where
  "read_slots addr stateDB slots rawSlots =
     foldl (\<lambda>m slot. AList.update slot (stateDB addr slot) m) rawSlots slots"

definition updateContract :: "Cache \<Rightarrow> address \<Rightarrow> StateReader \<Rightarrow> error + ContractState" where
  "updateContract c addr stateDB =
     (let contractState =
            \<lparr>Address = addr, Type = ContractTypeUnknown, RawSlots = [], Decoded = None,
             LastUpdated = 0\<rparr>
      in case map_of (decoders c) addr of
           Some decoder \<Rightarrow>
             (let contractState = contractState\<lparr>Type := decoder_Type decoder\<rparr>;
                  slots = decoder_RequiredSlots decoder;
                  contractState = contractState\<lparr>RawSlots :=
                    read_slots addr stateDB slots (RawSlots contractState)\<rparr>
              in case decoder_Decode decoder (RawSlots contractState) of
                   Inl err \<Rightarrow> Inl (FailedToDecode (decoder_Type decoder) err)
                 | Inr dec \<Rightarrow> Inr (contractState\<lparr>Decoded := dec\<rparr>))
         | None \<Rightarrow> Inr contractState)"

text \<open>
  \<^verbatim>\<open>cleanupOldSnapshots\<close>. The \<^verbatim>\<open>range\<close> loop deletes, from the map it walks, the entry
  it is visiting.
\<close>

definition cleanupOldSnapshots :: "Cache \<Rightarrow> uint64 \<Rightarrow> Cache" where
  "cleanupOldSnapshots c currentBlock =
     (if (of_nat (length (snapshots c)) :: uint64) \<le> MaxSnapshots (config c) then c
      else
        (let cutoff = (if currentBlock > MaxSnapshots (config c)
                       then currentBlock - MaxSnapshots (config c) else 0)
         in c\<lparr>snapshots :=
               foldl (\<lambda>m (hash, snapshot).
                        if BlockNumber snapshot < cutoff then AList.delete hash m else m)
                 (snapshots c) (snapshots c)\<rparr>))"

text \<open>The body of the loop over the watchlist in \<^verbatim>\<open>Update\<close>.\<close>

definition update_step :: "Cache \<Rightarrow> StateReader \<Rightarrow> Snapshot \<Rightarrow> address \<Rightarrow> Snapshot" where
  "update_step c stateDB newSnapshot addr =
     (case updateContract c addr stateDB of
        Inl err \<Rightarrow> newSnapshot
      | Inr contractState \<Rightarrow>
          newSnapshot\<lparr>Contracts := AList.update addr contractState (Contracts newSnapshot)\<rparr>)"

text \<open>The new snapshot of \<^verbatim>\<open>Update\<close>: created with an empty map, filled by the loop.\<close>

definition build_snapshot :: "Cache \<Rightarrow> Header \<Rightarrow> StateReader \<Rightarrow> Snapshot" where
  "build_snapshot c block stateDB =
     (let newSnapshot =
            \<lparr>BlockNumber = Uint64 (Number block), BlockHash = Hash block,
             BlockTime = Time block, Contracts = []\<rparr>
      in foldl (update_step c stateDB) newSnapshot (map fst (watchlist c)))"

definition Update :: "Cache \<Rightarrow> Header \<Rightarrow> StateReader \<Rightarrow> Cache \<times> error option" where
  "Update c block stateDB =
     (if \<not> Enabled (config c) then (c, None)
      else
        (let c1 = c\<lparr>stats := (stats c)\<lparr>Updates := Updates (stats c) + 1\<rparr>\<rparr>;
             newSnapshot = build_snapshot c1 block stateDB;
             c2 = c1\<lparr>snapshots := AList.update (Hash block) newSnapshot (snapshots c1)\<rparr>;
             c3 = cleanupOldSnapshots c2 (Uint64 (Number block));
             c4 = c3\<lparr>current := newSnapshot\<rparr>
         in (c4, None)))"

section \<open>The shadow validator\<close>

fun validate_slots ::
  "Cache \<Rightarrow> address \<Rightarrow> (hash \<times> hash) list \<Rightarrow> StateReader \<Rightarrow> Cache \<times> error option" where
  "validate_slots c addr [] stateDB = (c, None)"
| "validate_slots c addr ((slot, cachedValue) # rest) stateDB =
     (let canonicalValue = stateDB addr slot
      in if cachedValue \<noteq> canonicalValue
         then (c\<lparr>stats := (stats c)\<lparr>ValidationErrors := ValidationErrors (stats c) + 1\<rparr>\<rparr>,
               Some (InconsistentState addr slot cachedValue canonicalValue))
         else validate_slots c addr rest stateDB)"

fun validate_contracts ::
  "Cache \<Rightarrow> (address \<times> ContractState) list \<Rightarrow> StateReader \<Rightarrow> Cache \<times> error option" where
  "validate_contracts c [] stateDB = (c, None)"
| "validate_contracts c ((addr, cachedState) # rest) stateDB =
     (case validate_slots c addr (RawSlots cachedState) stateDB of
        (c', Some err) \<Rightarrow> (c', Some err)
      | (c', None) \<Rightarrow> validate_contracts c' rest stateDB)"

definition Validate :: "Cache \<Rightarrow> StateReader \<Rightarrow> Cache \<times> error option" where
  "Validate c stateDB =
     (if \<not> ShadowMode (config c) then (c, None)
      else (let snapshot = GetSnapshot c
            in validate_contracts c (Contracts snapshot) stateDB))"

section \<open>The reorg handler\<close>

text \<open>
  The search for the common ancestor: the inner loop walks \<^verbatim>\<open>newChain\<close> from its last
  header down and stops at the first header with the hash of \<^verbatim>\<open>oldChain[i]\<close>; the outer
  loop walks \<^verbatim>\<open>oldChain\<close> from its last header down and stops once \<^verbatim>\<open>commonHash\<close> is not
  the zero hash. Both functions take the chain already reversed.
\<close>

fun scan_new :: "hash \<Rightarrow> Header list \<Rightarrow> hash \<Rightarrow> hash" where
  "scan_new oldHash [] commonHash = commonHash"
| "scan_new oldHash (n # ns) commonHash =
     (if oldHash = Hash n then oldHash else scan_new oldHash ns commonHash)"

fun scan_old :: "Header list \<Rightarrow> Header list \<Rightarrow> hash \<Rightarrow> hash" where
  "scan_old [] newChain commonHash = commonHash"
| "scan_old (ob # obs) newChain commonHash =
     (let commonHash' = scan_new (Hash ob) (rev newChain) commonHash
      in if commonHash' \<noteq> 0 then commonHash' else scan_old obs newChain commonHash')"

definition commonAncestor :: "Header list \<Rightarrow> Header list \<Rightarrow> hash" where
  "commonAncestor oldChain newChain = scan_old (rev oldChain) newChain 0"

text \<open>The replay loop over \<^verbatim>\<open>newChain\<close>.\<close>

fun replay ::
  "Cache \<Rightarrow> Snapshot \<Rightarrow> Header list \<Rightarrow> StateReader \<Rightarrow> Cache \<times> error option" where
  "replay c commonSnapshot [] stateDB = (c, None)"
| "replay c commonSnapshot (header # rest) stateDB =
     (if Uint64 (Number header) \<le> BlockNumber commonSnapshot
      then replay c commonSnapshot rest stateDB
      else (case Update c header stateDB of
              (c', Some err) \<Rightarrow> (c', Some (FailedToReplay (Uint64 (Number header)) err))
            | (c', None) \<Rightarrow> replay c' commonSnapshot rest stateDB))"

text \<open>
  \<^verbatim>\<open>HandleReorg\<close>. The expression \<^verbatim>\<open>newChain[len(newChain)-1]\<close> occurs twice: as the
  argument of the rebuilding \<^verbatim>\<open>Update\<close>, and as an argument of the last \<^verbatim>\<open>log.Info\<close>; on
  an empty slice it panics.
\<close>

definition HandleReorg ::
  "Cache \<Rightarrow> Header list \<Rightarrow> Header list \<Rightarrow> StateReader \<Rightarrow> Cache \<times> error option outcome" where
  "HandleReorg c oldChain newChain stateDB =
     (if \<not> Enabled (config c) then (c, Returned None)
      else
        (let c1 = c\<lparr>stats := (stats c)\<lparr>ReorgCount := ReorgCount (stats c) + 1\<rparr>\<rparr>;
             commonHash = commonAncestor oldChain newChain
         in case map_of (snapshots c1) commonHash of
              None \<Rightarrow>
                (if newChain = [] then (c1, Panic ''index out of range [-1]'')
                 else (case Update c1 (last newChain) stateDB of
                         (c2, err) \<Rightarrow> (c2, Returned err)))
            | Some commonSnapshot \<Rightarrow>
                (let c2 = c1\<lparr>current := commonSnapshot\<rparr>
                 in case replay c2 commonSnapshot newChain stateDB of
                      (c3, Some err) \<Rightarrow> (c3, Returned (Some err))
                    | (c3, None) \<Rightarrow>
                        (if newChain = [] then (c3, Panic ''index out of range [-1]'')
                         else (c3, Returned None)))))"

section \<open>Prices: big floats\<close>

text \<open>
  \<^verbatim>\<open>GetPrice\<close> and \<^verbatim>\<open>GetInversePrice\<close> return a \<^verbatim>\<open>*big.Float\<close> of \<^verbatim>\<open>math/big\<close>: a binary
  floating-point number with a precision (the number of mantissa bits) and the rounding
  mode \<^verbatim>\<open>ToNearestEven\<close>. A finite float is \<open>Finite prec mant exp\<close>, of value
  \<open>mant * 2 ^ exp\<close>; the sign of a zero is not kept. What the package uses of the library:
  \<^item> \<^verbatim>\<open>big.NewFloat(0)\<close> is the zero of precision 53;
  \<^item> \<^verbatim>\<open>new(big.Float).SetInt(x)\<close> is \<open>x\<close>, exactly, at precision
    \<open>max (x.BitLen()) 64\<close>;
  \<^item> \<^verbatim>\<open>new(big.Float).Quo(x, y)\<close> is the quotient rounded to the larger of the two
    precisions; it panics with \<^verbatim>\<open>ErrNaN\<close> when both operands are zero or both infinite,
    and a non-zero finite number divided by zero is an infinity;
  \<^item> \<^verbatim>\<open>Mul\<close> is the product rounded in the same way.
  The exponent of the library is a 32-bit integer; it is unbounded here.
\<close>

datatype Float = Finite nat int int | Infinite nat

text \<open>\<^verbatim>\<open>big.Int.BitLen\<close>: the number of bits of the absolute value, 0 for 0.\<close>

fun bitlen_nat :: "nat \<Rightarrow> nat" where
  "bitlen_nat n = (if n = 0 then 0 else Suc (bitlen_nat (n div 2)))"

declare bitlen_nat.simps [simp del]

definition BitLen :: "int \<Rightarrow> nat" where
  "BitLen x = bitlen_nat (nat \<bar>x\<bar>)"

definition float_val :: "Float \<Rightarrow> rat" where
  "float_val f = (case f of Finite p m e \<Rightarrow> of_int m * 2 powi e | Infinite p \<Rightarrow> 0)"

text \<open>
  Rounding to nearest, ties to even. \<open>round_half_even N D\<close> is the integer nearest to
  \<open>N / D\<close>; \<open>ratio_exponent A B\<close> is the \<open>e\<close> with \<open>2 ^ (e - 1) \<le> A / B < 2 ^ e\<close>;
  \<open>round_ratio p a b ex\<close> is the float of precision \<open>p\<close> nearest to \<open>(a / b) * 2 ^ ex\<close>:
  the quotient is scaled so that its integer part has \<open>p\<close> bits, then rounded.
\<close>

definition round_half_even :: "int \<Rightarrow> int \<Rightarrow> int" where
  "round_half_even N D =
     (let q = N div D; r = N mod D
      in if 2 * r < D then q else if D < 2 * r then q + 1
         else if even q then q else q + 1)"

definition ratio_exponent :: "int \<Rightarrow> int \<Rightarrow> int" where
  "ratio_exponent A B =
     (let d = int (BitLen A) - int (BitLen B)
      in if A * 2 ^ nat (- d) < B * 2 ^ nat d then d else d + 1)"

definition round_ratio :: "nat \<Rightarrow> int \<Rightarrow> int \<Rightarrow> int \<Rightarrow> Float" where
  "round_ratio p a b ex =
     (if a = 0 then Finite p 0 0
      else
        (let A = \<bar>a\<bar>; B = \<bar>b\<bar>;
             s = int p - ratio_exponent A B;
             n = round_half_even (A * 2 ^ nat s) (B * 2 ^ nat (- s))
         in Finite p (sgn a * sgn b * n) (ex - s)))"

definition NewFloat0 :: Float where
  "NewFloat0 = Finite 53 0 0"

definition SetInt :: "int \<Rightarrow> Float" where
  "SetInt x = Finite (max (BitLen x) 64) x 0"

fun Quo :: "Float \<Rightarrow> Float \<Rightarrow> Float outcome" where
  "Quo (Finite px mx ex) (Finite py my ey) =
     (if mx = 0 \<and> my = 0 then Panic ''division of zero by zero or infinity by infinity''
      else if my = 0 then Returned (Infinite (max px py))
      else Returned (round_ratio (max px py) mx my (ex - ey)))"
| "Quo (Finite px mx ex) (Infinite py) = Returned (Finite (max px py) 0 0)"
| "Quo (Infinite px) (Finite py my ey) = Returned (Infinite (max px py))"
| "Quo (Infinite px) (Infinite py) = Panic ''division of zero by zero or infinity by infinity''"

fun Mul :: "Float \<Rightarrow> Float \<Rightarrow> Float outcome" where
  "Mul (Finite px mx ex) (Finite py my ey) =
     Returned (round_ratio (max px py) (mx * my) 1 (ex + ey))"
| "Mul (Finite px mx ex) (Infinite py) =
     (if mx = 0 then Panic ''multiplication of zero with infinity''
      else Returned (Infinite (max px py)))"
| "Mul (Infinite px) (Finite py my ey) =
     (if my = 0 then Panic ''multiplication of zero with infinity''
      else Returned (Infinite (max px py)))"
| "Mul (Infinite px) (Infinite py) = Returned (Infinite (max px py))"

definition GetPrice :: "UniswapV2State \<Rightarrow> Float outcome" where
  "GetPrice s =
     (if Reserve0 s = 0 then Returned NewFloat0
      else (let reserve0Float = SetInt (Reserve0 s);
                reserve1Float = SetInt (Reserve1 s)
            in Quo reserve1Float reserve0Float))"

definition GetInversePrice :: "UniswapV2State \<Rightarrow> Float outcome" where
  "GetInversePrice s =
     (if Reserve1 s = 0 then Returned NewFloat0
      else (let reserve0Float = SetInt (Reserve0 s);
                reserve1Float = SetInt (Reserve1 s)
            in Quo reserve0Float reserve1Float))"

section \<open>Bytes and bit fields\<close>

lemma SetBytes_snoc: "SetBytes (bs @ [b]) = SetBytes bs * 256 + uint b"
  by (simp add: SetBytes_def)

lemma uint_byte_of:
  "uint (ucast (drop_bit k (h::hash)) :: byte) = (uint h div 2 ^ k) mod 256"
proof -
  have "uint (ucast (drop_bit k h) :: byte) = take_bit 8 (uint (drop_bit k h))"
    by (simp add: unsigned_ucast_eq)
  also have "uint (drop_bit k h) = drop_bit k (uint h)"
  proof -
    have "take_bit 256 (uint h) = uint h"
      using uint_bounded [of h] by (intro take_bit_int_eq_self) simp_all
    then show ?thesis by (simp add: unsigned_drop_bit_eq)
  qed
  finally show ?thesis
    by (simp add: take_bit_eq_mod drop_bit_eq_div)
qed

lemma SetBytes_prefix:
  "n \<le> 32 \<Longrightarrow>
   SetBytes (map (\<lambda>i. ucast (drop_bit (8 * (31 - i)) (h::hash)) :: byte) [0..<n]) =
   uint h div 2 ^ (8 * (32 - n))"
proof (induction n)
  case 0
  have "uint h < 2 ^ 256" using uint_bounded [of h] by simp
  then show ?case by (simp add: SetBytes_def)
next
  case (Suc n)
  then have n: "n < 32" by simp
  have e: "8 * (32 - n) = 8 * (31 - n) + 8" using n by simp
  have "uint h div 2 ^ (8 * (32 - n)) = (uint h div 2 ^ (8 * (31 - n))) div 256"
    unfolding e by (simp add: power_add zdiv_zmult2_eq)
  with Suc n show ?case
    by (simp add: SetBytes_snoc uint_byte_of)
qed

lemma SetBytes_Bytes: "SetBytes (Bytes h) = uint h"
  using SetBytes_prefix [of 32 h] by (simp add: Bytes_def)

lemma length_Bytes: "length (Bytes h) = 32"
  by (simp add: Bytes_def)

lemma and_mask112: "x AND (push_bit 112 (1::int) - 1) = x mod 2 ^ 112"
proof -
  have "push_bit 112 (1::int) - 1 = mask 112"
    by (simp only: mask_eq_exp_minus_1 push_bit_eq_mult mult_1)
  then show ?thesis
    by (simp only: take_bit_eq_mask [symmetric] take_bit_eq_mod)
qed

lemma three_fields:
  fixes a b c M :: int
  assumes "0 \<le> a" "a < M" "0 \<le> b" "b < M"
  shows "(a + b * M + c * (M * M)) mod M = a"
    and "(a + b * M + c * (M * M)) div M mod M = b"
    and "(a + b * M + c * (M * M)) div (M * M) = c"
proof -
  have M: "0 < M" using assms by linarith
  have e: "a + b * M + c * (M * M) = a + M * (b + c * M)"
    by (simp add: algebra_simps)
  show "(a + b * M + c * (M * M)) mod M = a"
    unfolding e using assms by simp
  have d: "(a + b * M + c * (M * M)) div M = b + c * M"
    unfolding e using assms M by (simp add: div_pos_pos_trivial)
  show "(a + b * M + c * (M * M)) div M mod M = b"
    unfolding d using assms by simp
  have "(a + b * M + c * (M * M)) div (M * M) = (b + c * M) div M"
    using d M by (simp add: zdiv_zmult2_eq)
  also have "\<dots> = c" using assms M by (simp add: div_pos_pos_trivial)
  finally show "(a + b * M + c * (M * M)) div (M * M) = c" .
qed

lemma three_fields_bound:
  fixes a b c M K :: int
  assumes "0 \<le> a" "a < M" "0 \<le> b" "b < M" "0 \<le> c" "c < K"
  shows "0 \<le> a + b * M + c * (M * M)" and "a + b * M + c * (M * M) < K * (M * M)"
proof -
  have M: "0 < M" using assms by linarith
  show "0 \<le> a + b * M + c * (M * M)" using assms M by simp
  have "a + b * M \<le> (M - 1) + (M - 1) * M"
    using assms M by (intro add_mono mult_right_mono) simp_all
  then have "a + b * M < M * M" by (simp add: algebra_simps)
  moreover have "c * (M * M) \<le> (K - 1) * (M * M)"
    using assms M by (intro mult_right_mono) simp_all
  ultimately show "a + b * M + c * (M * M) < K * (M * M)"
    by (simp add: algebra_simps)
qed

lemma uint_ucast_Uint64:
  assumes "0 \<le> ts" "ts < 2 ^ 32"
  shows "uint (ucast (Uint64 ts) :: uint32) = ts"
proof -
  have "\<bar>ts\<bar> = ts" using assms by simp
  then have "uint (ucast (Uint64 ts) :: uint32) = take_bit 32 (take_bit 64 ts)"
    by (simp add: Uint64_def unsigned_ucast_eq uint_word_of_int_eq)
  also have "\<dots> = take_bit 32 ts" by simp
  also have "\<dots> = ts" using assms by (intro take_bit_int_eq_self) simp_all
  finally show ?thesis .
qed

lemma decode_reserves_packed:
  fixes reserve0 reserve1 ts :: int
  assumes "0 \<le> reserve0" "reserve0 < 2 ^ 112" "0 \<le> reserve1" "reserve1 < 2 ^ 112"
    and "0 \<le> ts" "ts < 2 ^ 32"
  defines "w \<equiv> (word_of_int (reserve0 + reserve1 * 2 ^ 112 + ts * 2 ^ 224) :: hash)"
  shows "decode_reserves w st =
           st\<lparr>Reserve0 := reserve0, Reserve1 := reserve1,
              BlockTimestampLast := ucast (Uint64 ts)\<rparr>"
proof -
  define M :: int where "M = 2 ^ 112"
  define X where "X = reserve0 + reserve1 * M + ts * (M * M)"
  have MM: "(2::int) ^ 112 * 2 ^ 112 = 2 ^ 224" by simp
  have K: "2 ^ 32 * (M * M) = (2 ^ 256 :: int)" by (simp add: M_def)
  have b: "0 \<le> reserve0" "reserve0 < M" "0 \<le> reserve1" "reserve1 < M"
    using assms by (simp_all add: M_def)
  have X0: "0 \<le> X" and X1: "X < 2 ^ 256"
    using three_fields_bound [OF b assms(5,6)] by (simp_all only: X_def K)
  have w: "w = word_of_int X" by (simp only: w_def X_def M_def MM)
  have "uint w = take_bit 256 X" by (simp add: w uint_word_of_int_eq)
  also have "\<dots> = X" using X0 X1 by (intro take_bit_int_eq_self) simp_all
  finally have full: "SetBytes (Bytes w) = X" by (simp only: SetBytes_Bytes)
  have r0: "X AND (push_bit 112 1 - 1) = reserve0"
    using three_fields(1) [OF b] by (simp only: and_mask112 X_def M_def)
  have r1: "drop_bit 112 X AND (push_bit 112 1 - 1) = reserve1"
    using three_fields(2) [OF b] by (simp only: and_mask112 drop_bit_eq_div X_def M_def)
  have t: "drop_bit 224 X = ts"
    using three_fields(3) [OF b] by (simp only: drop_bit_eq_div X_def M_def MM)
  show ?thesis
    by (simp only: decode_reserves_def Let_def length_Bytes full r0 r1 t refl if_True)
qed

section \<open>The Uniswap V2 decoder: results\<close>

lemma Decode_present:
  assumes "map_of slots uniswapV2SlotToken0 = Some t0"
    and "map_of slots uniswapV2SlotToken1 = Some t1"
    and "map_of slots uniswapV2SlotReserves = Some w"
  shows "UniswapV2Decoder_Decode slots =
           Inr ((decode_reserves w
                  (UniswapV2State_init\<lparr>Token0 := BytesToAddress (Bytes t0),
                                         Token1 := BytesToAddress (Bytes t1)\<rparr>))
                \<lparr>Price0Cumulative := decode_optional slots uniswapV2SlotPrice0Cumulative 0,
                 Price1Cumulative := decode_optional slots uniswapV2SlotPrice1Cumulative 0,
                 KLast := decode_optional slots uniswapV2SlotKLast 0\<rparr>)"
  using assms
  by (simp add: UniswapV2Decoder_Decode_def Let_def decode_reserves_def UniswapV2State_init_def)

text \<open>
  Claim C3. For \<open>reserve0, reserve1 < 2^112\<close> and \<open>ts < 2^32\<close>: when the slot map holds
  slots 6 and 7 and maps slot 8 to the word \<open>reserve0 + reserve1 * 2^112 + ts * 2^224\<close>,
  \<open>Decode\<close> succeeds, and the state it returns has \<open>Reserve0 = reserve0\<close>,
  \<open>Reserve1 = reserve1\<close> and \<open>BlockTimestampLast = ts\<close>.
\<close>

theorem Decode_slot8_extraction:
  fixes reserve0 reserve1 ts :: int
  assumes "0 \<le> reserve0" "reserve0 < 2 ^ 112" "0 \<le> reserve1" "reserve1 < 2 ^ 112"
    and "0 \<le> ts" "ts < 2 ^ 32"
    and "map_of slots uniswapV2SlotToken0 = Some t0"
    and "map_of slots uniswapV2SlotToken1 = Some t1"
    and "map_of slots uniswapV2SlotReserves =
           Some (word_of_int (reserve0 + reserve1 * 2 ^ 112 + ts * 2 ^ 224))"
  shows "\<exists>st. UniswapV2Decoder_Decode slots = Inr st \<and>
              Reserve0 st = reserve0 \<and> Reserve1 st = reserve1 \<and>
              uint (BlockTimestampLast st) = ts"
proof -
  note d = Decode_present [OF assms(7-9), unfolded decode_reserves_packed [OF assms(1-6)]]
  show ?thesis
    unfolding d using uint_ucast_Uint64 [OF assms(5,6)] by simp
qed

lemma slot_keys:
  "uniswapV2SlotToken0 = 6" "uniswapV2SlotToken1 = 7" "uniswapV2SlotReserves = 8"
  "uniswapV2SlotPrice0Cumulative = 9" "uniswapV2SlotPrice1Cumulative = 10"
  "uniswapV2SlotKLast = 11"
  by (simp_all add: uniswapV2SlotToken0_def uniswapV2SlotToken1_def uniswapV2SlotReserves_def
        uniswapV2SlotPrice0Cumulative_def uniswapV2SlotPrice1Cumulative_def
        uniswapV2SlotKLast_def BigToHash_def)

text \<open>The boundary values \<open>2^112 - 1\<close> and \<open>2^32 - 1\<close> go through.\<close>

theorem Decode_slot8_extraction_witness:
  "\<exists>st. UniswapV2Decoder_Decode
          [(6, 1), (7, 2),
           (8, word_of_int
                 ((2 ^ 112 - 1) + (2 ^ 112 - 1) * 2 ^ 112 + (2 ^ 32 - 1) * 2 ^ 224))] = Inr st \<and>
        Reserve0 st = 2 ^ 112 - 1 \<and> Reserve1 st = 2 ^ 112 - 1 \<and>
        uint (BlockTimestampLast st) = 2 ^ 32 - 1"
  using Decode_slot8_extraction [of "2 ^ 112 - 1" "2 ^ 112 - 1" "2 ^ 32 - 1"
     "[(6, 1), (7, 2),
       (8, word_of_int
             ((2 ^ 112 - 1) + (2 ^ 112 - 1) * 2 ^ 112 + (2 ^ 32 - 1) * 2 ^ 224))]" 1 2]
  by (simp add: slot_keys)

text \<open>
  Claim C4. \<open>Decode\<close> returns an error exactly when slot 6, slot 7 or slot 8 is absent
  from the slot map, and the message names the first missing field (token0, then token1,
  then reserves). When it succeeds, each of slots 9, 10 and 11 that is absent leaves
  \<open>Price0Cumulative\<close>, \<open>Price1Cumulative\<close> or \<open>KLast\<close> at zero.
\<close>

theorem Decode_error_conditions:
  "((\<exists>e. UniswapV2Decoder_Decode slots = Inl e) \<longleftrightarrow>
       (map_of slots uniswapV2SlotToken0 = None \<or> map_of slots uniswapV2SlotToken1 = None \<or>
        map_of slots uniswapV2SlotReserves = None)) \<and>
   (map_of slots uniswapV2SlotToken0 = None \<longrightarrow>
      UniswapV2Decoder_Decode slots = Inl (Errorf ''missing token0 slot'')) \<and>
   (map_of slots uniswapV2SlotToken0 \<noteq> None \<and> map_of slots uniswapV2SlotToken1 = None \<longrightarrow>
      UniswapV2Decoder_Decode slots = Inl (Errorf ''missing token1 slot'')) \<and>
   (map_of slots uniswapV2SlotToken0 \<noteq> None \<and> map_of slots uniswapV2SlotToken1 \<noteq> None \<and>
    map_of slots uniswapV2SlotReserves = None \<longrightarrow>
      UniswapV2Decoder_Decode slots = Inl (Errorf ''missing reserves slot'')) \<and>
   (\<forall>st. UniswapV2Decoder_Decode slots = Inr st \<longrightarrow>
      (map_of slots uniswapV2SlotPrice0Cumulative = None \<longrightarrow> Price0Cumulative st = 0) \<and>
      (map_of slots uniswapV2SlotPrice1Cumulative = None \<longrightarrow> Price1Cumulative st = 0) \<and>
      (map_of slots uniswapV2SlotKLast = None \<longrightarrow> KLast st = 0))"
  by (auto simp add: UniswapV2Decoder_Decode_def Let_def decode_optional_def decode_reserves_def
        UniswapV2State_init_def split: option.splits)

theorem Decode_error_conditions_witness:
  "UniswapV2Decoder_Decode [] = Inl (Errorf ''missing token0 slot'') \<and>
   UniswapV2Decoder_Decode [(6, 1)] = Inl (Errorf ''missing token1 slot'') \<and>
   UniswapV2Decoder_Decode [(6, 1), (7, 2)] = Inl (Errorf ''missing reserves slot'') \<and>
   (\<exists>st. UniswapV2Decoder_Decode [(6, 1), (7, 2), (8, 3)] = Inr st \<and>
         Price0Cumulative st = 0 \<and> Price1Cumulative st = 0 \<and> KLast st = 0)"
proof -
  note a = Decode_error_conditions [of "[]"]
    and b = Decode_error_conditions [of "[(6, 1)]"]
    and c = Decode_error_conditions [of "[(6, 1), (7, 2)]"]
    and d = Decode_error_conditions [of "[(6, 1), (7, 2), (8, 3)]"]
  from d have "\<forall>e. UniswapV2Decoder_Decode [(6, 1), (7, 2), (8, 3)] \<noteq> Inl e"
    by (simp add: slot_keys)
  then obtain st where st: "UniswapV2Decoder_Decode [(6, 1), (7, 2), (8, 3)] = Inr st"
    by (cases "UniswapV2Decoder_Decode [(6, 1), (7, 2), (8, 3)]") auto
  with d have "Price0Cumulative st = 0 \<and> Price1Cumulative st = 0 \<and> KLast st = 0"
    by (simp add: slot_keys)
  with st a b c show ?thesis
    by (simp add: slot_keys)
qed

section \<open>The updater: results\<close>


lemma updateContract_decoders:
  assumes "decoders c' = decoders c"
  shows "updateContract c' addr stateDB = updateContract c addr stateDB"
  by (simp add: updateContract_def assms)

lemma update_step_fields:
  "BlockNumber (update_step c stateDB s addr) = BlockNumber s"
  "BlockHash (update_step c stateDB s addr) = BlockHash s"
  "BlockTime (update_step c stateDB s addr) = BlockTime s"
  by (simp_all add: update_step_def split: sum.splits)

lemma foldl_update_step_fields:
  "BlockNumber (foldl (update_step c stateDB) s addrs) = BlockNumber s"
  "BlockHash (foldl (update_step c stateDB) s addrs) = BlockHash s"
  "BlockTime (foldl (update_step c stateDB) s addrs) = BlockTime s"
  by (induction addrs arbitrary: s) (simp_all add: update_step_fields)

lemma update_step_contracts:
  "map_of (Contracts (update_step c stateDB s x)) a =
     (if a = x
      then (case updateContract c a stateDB of
              Inl err \<Rightarrow> map_of (Contracts s) a
            | Inr contractState \<Rightarrow> Some contractState)
      else map_of (Contracts s) a)"
  by (simp add: update_step_def update_conv' split: sum.splits)

lemma foldl_update_step_contracts:
  "map_of (Contracts (foldl (update_step c stateDB) s addrs)) a =
     (if a \<in> set addrs
      then (case updateContract c a stateDB of
              Inl err \<Rightarrow> map_of (Contracts s) a
            | Inr contractState \<Rightarrow> Some contractState)
      else map_of (Contracts s) a)"
proof (induction addrs arbitrary: s)
  case Nil
  then show ?case by simp
next
  case (Cons x xs)
  have "map_of (Contracts (foldl (update_step c stateDB) s (x # xs))) a =
        map_of (Contracts (foldl (update_step c stateDB) (update_step c stateDB s x) xs)) a"
    by simp
  also have "\<dots> =
     (if a \<in> set xs
      then (case updateContract c a stateDB of
              Inl err \<Rightarrow> map_of (Contracts (update_step c stateDB s x)) a
            | Inr contractState \<Rightarrow> Some contractState)
      else map_of (Contracts (update_step c stateDB s x)) a)"
    by (rule Cons.IH)
  also have "\<dots> =
     (if a \<in> set (x # xs)
      then (case updateContract c a stateDB of
              Inl err \<Rightarrow> map_of (Contracts s) a
            | Inr contractState \<Rightarrow> Some contractState)
      else map_of (Contracts s) a)"
    by (simp add: update_step_contracts split: sum.splits)
  finally show ?case .
qed

lemma build_snapshot_fields:
  "BlockNumber (build_snapshot c block stateDB) = Uint64 (Number block)"
  "BlockHash (build_snapshot c block stateDB) = Hash block"
  "BlockTime (build_snapshot c block stateDB) = Time block"
  by (simp_all add: build_snapshot_def foldl_update_step_fields)

lemma build_snapshot_contracts:
  "map_of (Contracts (build_snapshot c block stateDB)) a =
     (if a \<in> fst ` set (watchlist c)
      then (case updateContract c a stateDB of
              Inl err \<Rightarrow> None
            | Inr contractState \<Rightarrow> Some contractState)
      else None)"
  by (simp add: build_snapshot_def foldl_update_step_contracts split: sum.splits)

lemma build_snapshot_cong:
  assumes "decoders c' = decoders c" and "watchlist c' = watchlist c"
  shows "build_snapshot c' block stateDB = build_snapshot c block stateDB"
proof -
  have "update_step c' stateDB = update_step c stateDB"
    by (intro ext) (simp add: update_step_def updateContract_decoders [OF assms(1)])
  then show ?thesis by (simp add: build_snapshot_def assms(2))
qed

lemma build_snapshot_stats [simp]:
  "build_snapshot (c\<lparr>stats := s\<rparr>) block stateDB = build_snapshot c block stateDB"
  by (rule build_snapshot_cong) simp_all

lemma cleanupOldSnapshots_fields:
  "config (cleanupOldSnapshots c n) = config c"
  "current (cleanupOldSnapshots c n) = current c"
  "watchlist (cleanupOldSnapshots c n) = watchlist c"
  "decoders (cleanupOldSnapshots c n) = decoders c"
  "stats (cleanupOldSnapshots c n) = stats c"
  by (simp_all add: cleanupOldSnapshots_def Let_def)

lemma Update_disabled: "\<not> Enabled (config c) \<Longrightarrow> Update c block stateDB = (c, None)"
  by (simp add: Update_def)

lemma Update_returns_nil: "snd (Update c block stateDB) = None"
  by (simp add: Update_def Let_def)

lemma Update_fields:
  "config (fst (Update c block stateDB)) = config c"
  "watchlist (fst (Update c block stateDB)) = watchlist c"
  "decoders (fst (Update c block stateDB)) = decoders c"
  by (simp_all add: Update_def Let_def cleanupOldSnapshots_fields)

lemma Update_current:
  "Enabled (config c) \<Longrightarrow>
   current (fst (Update c block stateDB)) = build_snapshot c block stateDB"
  by (simp add: Update_def Let_def cleanupOldSnapshots_fields)

lemma Update_stats:
  "Enabled (config c) \<Longrightarrow>
   stats (fst (Update c block stateDB)) = (stats c)\<lparr>Updates := Updates (stats c) + 1\<rparr>"
  by (simp add: Update_def Let_def cleanupOldSnapshots_fields)

lemma Update_ReorgCount:
  "ReorgCount (stats (fst (Update c block stateDB))) = ReorgCount (stats c)"
  by (simp add: Update_def Let_def cleanupOldSnapshots_fields)

text \<open>
  Claim C6. In the snapshot that \<open>Update\<close> publishes on an enabled cache, a watchlist
  address with no registered decoder maps to a contract state of type Unknown with no
  raw slots and no decoded record; a watchlist address whose decoder fails on the slots
  read for it is absent. The update returns no error, and every watchlist address whose
  \<open>updateContract\<close> succeeds is in the snapshot.
\<close>

theorem Update_contract_outcome:
  assumes "Enabled (config c)" and "addr \<in> fst ` set (watchlist c)"
  shows "(map_of (decoders c) addr = None \<longrightarrow>
            map_of (Contracts (current (fst (Update c block stateDB)))) addr =
              Some \<lparr>Address = addr, Type = ContractTypeUnknown, RawSlots = [],
                    Decoded = None, LastUpdated = 0\<rparr>) \<and>
         (\<forall>decoder err.
            map_of (decoders c) addr = Some decoder \<and>
            decoder_Decode decoder
              (read_slots addr stateDB (decoder_RequiredSlots decoder) []) = Inl err \<longrightarrow>
            map_of (Contracts (current (fst (Update c block stateDB)))) addr = None) \<and>
         snd (Update c block stateDB) = None \<and>
         (\<forall>a contractState.
            a \<in> fst ` set (watchlist c) \<and> updateContract c a stateDB = Inr contractState \<longrightarrow>
            map_of (Contracts (current (fst (Update c block stateDB)))) a = Some contractState)"
  using assms
  by (auto simp add: Update_current Update_returns_nil build_snapshot_contracts
        updateContract_def Let_def)

theorem Update_contract_outcome_witness:
  "(let c = RegisterDecoder
              (New \<lparr>Enabled = True, Watchlist = [1, 2], ShadowMode = True, MaxSnapshots = 64\<rparr>)
              2 (OtherDecoder ContractTypeAave [5] (\<lambda>slots. Inl (Errorf ''bad layout'')));
        c' = fst (Update c \<lparr>Number = 100, Hash = 7, ParentHash = 6, Time = 0\<rparr> (\<lambda>a s. 0))
    in map_of (Contracts (current c')) 1 =
         Some \<lparr>Address = 1, Type = ContractTypeUnknown, RawSlots = [], Decoded = None,
               LastUpdated = 0\<rparr> \<and>
       map_of (Contracts (current c')) 2 = None)"
proof -
  define c where "c = RegisterDecoder
              (New \<lparr>Enabled = True, Watchlist = [1, 2], ShadowMode = True, MaxSnapshots = 64\<rparr>)
              2 (OtherDecoder ContractTypeAave [5] (\<lambda>slots. Inl (Errorf ''bad layout'')))"
  have e: "Enabled (config c)" by (simp add: c_def RegisterDecoder_def New_def)
  have w: "watchlist c = [(1, True), (2, True)]"
    by (simp add: c_def RegisterDecoder_def New_def)
  have d: "decoders c = [(2, OtherDecoder ContractTypeAave [5] (\<lambda>slots. Inl (Errorf ''bad layout'')))]"
    by (simp add: c_def RegisterDecoder_def New_def)
  have w1: "1 \<in> fst ` set (watchlist c)" and w2: "2 \<in> fst ` set (watchlist c)"
    by (simp_all add: w)
  note t1 = Update_contract_outcome [OF e w1, of "\<lparr>Number = 100, Hash = 7, ParentHash = 6, Time = 0\<rparr>" "\<lambda>a s. 0"]
  note t2 = Update_contract_outcome [OF e w2, of "\<lparr>Number = 100, Hash = 7, ParentHash = 6, Time = 0\<rparr>" "\<lambda>a s. 0"]
  from t1 have r1: "map_of (Contracts (current (fst (Update c \<lparr>Number = 100, Hash = 7, ParentHash = 6, Time = 0\<rparr> (\<lambda>a s. 0))))) 1 =
         Some \<lparr>Address = 1, Type = ContractTypeUnknown, RawSlots = [], Decoded = None,
               LastUpdated = 0\<rparr>"
    by (simp add: d)
  from t2 have r2: "map_of (Contracts (current (fst (Update c \<lparr>Number = 100, Hash = 7, ParentHash = 6, Time = 0\<rparr> (\<lambda>a s. 0))))) 2 = None"
    by (simp add: d)
  show ?thesis
    unfolding Let_def c_def [symmetric] using r1 r2 by simp
qed

section \<open>The reorg handler: results\<close>

lemma replay_returns_nil: "snd (replay c commonSnapshot newChain stateDB) = None"
proof (induction newChain arbitrary: c)
  case Nil
  then show ?case by simp
next
  case (Cons header rest)
  obtain c' e where u: "Update c header stateDB = (c', e)" by (cases "Update c header stateDB")
  with Update_returns_nil [of c header stateDB] have "e = None" by simp
  with u Cons.IH show ?case by simp
qed

lemma replay_ReorgCount:
  "ReorgCount (stats (fst (replay c commonSnapshot newChain stateDB))) = ReorgCount (stats c)"
proof (induction newChain arbitrary: c)
  case Nil
  then show ?case by simp
next
  case (Cons header rest)
  obtain c' e where u: "Update c header stateDB = (c', e)" by (cases "Update c header stateDB")
  with Update_returns_nil [of c header stateDB] have e: "e = None" by simp
  from u Update_ReorgCount [of c header stateDB]
  have "ReorgCount (stats c') = ReorgCount (stats c)" by simp
  with u e Cons.IH [of c] Cons.IH [of c'] show ?case by simp
qed

text \<open>
  Claim C9. \<open>Update\<close> returns a nil error for every cache (enabled or not), header
  and state reader. So the replay loop of \<open>HandleReorg\<close> never stops on an error of
  \<open>Update\<close>, and \<open>HandleReorg\<close> never returns an error.
\<close>

theorem Update_never_fails:
  "snd (Update c block stateDB) = None \<and>
   snd (replay c commonSnapshot newChain stateDB) = None \<and>
   (\<forall>err. snd (HandleReorg c oldChain newChain stateDB) \<noteq> Returned (Some err))"
proof -
  have "snd (HandleReorg c oldChain newChain stateDB) \<noteq> Returned (Some err)" for err
  proof -
    let ?c1 = "c\<lparr>stats := (stats c)\<lparr>ReorgCount := ReorgCount (stats c) + 1\<rparr>\<rparr>"
    have u: "snd (Update ?c1 (last newChain) stateDB) = None"
      by (rule Update_returns_nil)
    have r: "snd (replay (?c1\<lparr>current := s\<rparr>) s newChain stateDB) = None" for s
      by (rule replay_returns_nil)
    show ?thesis
    proof (cases "Enabled (config c)")
      case False
      then show ?thesis by (simp add: HandleReorg_def)
    next
      case True
      show ?thesis
      proof (cases "map_of (snapshots c) (commonAncestor oldChain newChain)")
        case None
        obtain c2 e where p: "Update ?c1 (last newChain) stateDB = (c2, e)"
          by (cases "Update ?c1 (last newChain) stateDB")
        with u have "e = None" by simp
        with True None p show ?thesis by (simp add: HandleReorg_def Let_def)
      next
        case (Some s)
        obtain c3 e where p: "replay (?c1\<lparr>current := s\<rparr>) s newChain stateDB = (c3, e)"
          by (cases "replay (?c1\<lparr>current := s\<rparr>) s newChain stateDB")
        with r [of s] have "e = None" by simp
        with True Some p show ?thesis by (simp add: HandleReorg_def Let_def)
      qed
    qed
  qed
  then show ?thesis
    by (simp add: Update_returns_nil replay_returns_nil)
qed

lemma scan_old_empty_new: "scan_old oldRev [] 0 = 0"
  by (induction oldRev) simp_all

lemma commonAncestor_empty_new: "commonAncestor oldChain [] = 0"
  by (simp add: commonAncestor_def scan_old_empty_new)

text \<open>
  Claim C10. On an enabled cache whose history has no snapshot under the zero hash,
  \<open>HandleReorg\<close> with an empty \<open>newChain\<close> (and any \<open>oldChain\<close>) panics on the index
  \<open>len(newChain)-1\<close> instead of returning.
\<close>

theorem HandleReorg_empty_newChain_panics:
  assumes "Enabled (config c)" and "map_of (snapshots c) 0 = None"
  shows "snd (HandleReorg c oldChain [] stateDB) = Panic ''index out of range [-1]''"
  using assms by (simp add: HandleReorg_def Let_def commonAncestor_empty_new)

text \<open>
  The hypothesis on the history is not needed: with the zero hash in the history the
  replay loop does nothing and the last \<^verbatim>\<open>log.Info\<close> evaluates the same index.
\<close>

lemma HandleReorg_empty_newChain_always_panics:
  assumes "Enabled (config c)"
  shows "snd (HandleReorg c oldChain [] stateDB) = Panic ''index out of range [-1]''"
  using assms
  by (simp add: HandleReorg_def Let_def commonAncestor_empty_new split: option.splits)

theorem Update_never_fails_witness:
  "snd (Update (New \<lparr>Enabled = True, Watchlist = [1], ShadowMode = True, MaxSnapshots = 2\<rparr>)
         \<lparr>Number = 1, Hash = 11, ParentHash = 10, Time = 0\<rparr> (\<lambda>a s. 0)) = None \<and>
   snd (HandleReorg (New \<lparr>Enabled = True, Watchlist = [1], ShadowMode = True, MaxSnapshots = 2\<rparr>)
         [\<lparr>Number = 1, Hash = 11, ParentHash = 10, Time = 0\<rparr>]
         [\<lparr>Number = 1, Hash = 12, ParentHash = 10, Time = 0\<rparr>] (\<lambda>a s. 0))
     \<noteq> Returned (Some ErrNotFound)"
  using Update_never_fails
    [of "New \<lparr>Enabled = True, Watchlist = [1], ShadowMode = True, MaxSnapshots = 2\<rparr>"
        "\<lparr>Number = 1, Hash = 11, ParentHash = 10, Time = 0\<rparr>" "\<lambda>a s. 0"
        _ "[\<lparr>Number = 1, Hash = 12, ParentHash = 10, Time = 0\<rparr>]"
        "[\<lparr>Number = 1, Hash = 11, ParentHash = 10, Time = 0\<rparr>]"]
  by simp

theorem HandleReorg_empty_newChain_panics_witness:
  "snd (HandleReorg (New \<lparr>Enabled = True, Watchlist = [1], ShadowMode = True, MaxSnapshots = 2\<rparr>)
         [\<lparr>Number = 1, Hash = 11, ParentHash = 10, Time = 0\<rparr>] [] (\<lambda>a s. 0))
     = Panic ''index out of range [-1]''"
  using HandleReorg_empty_newChain_panics
    [of "New \<lparr>Enabled = True, Watchlist = [1], ShadowMode = True, MaxSnapshots = 2\<rparr>"
        "[\<lparr>Number = 1, Hash = 11, ParentHash = 10, Time = 0\<rparr>]" "\<lambda>a s. 0"]
  by (simp add: New_def)

lemma scan_new_no_match:
  "oldHash \<notin> Hash ` set ns \<Longrightarrow> scan_new oldHash ns commonHash = commonHash"
  by (induction ns) simp_all

lemma scan_old_no_match:
  "Hash ` set obs \<inter> Hash ` set newChain = {} \<Longrightarrow> scan_old obs newChain 0 = 0"
proof (induction obs)
  case Nil
  then show ?case by simp
next
  case (Cons ob obs)
  then have "Hash ob \<notin> Hash ` set (rev newChain)" by auto
  then have "scan_new (Hash ob) (rev newChain) 0 = 0" by (rule scan_new_no_match)
  with Cons show ?case by simp
qed

lemma commonAncestor_no_match:
  "Hash ` set oldChain \<inter> Hash ` set newChain = {} \<Longrightarrow> commonAncestor oldChain newChain = 0"
  by (simp add: commonAncestor_def scan_old_no_match)

lemma HandleReorg_ReorgCount:
  assumes "Enabled (config c)"
  shows "ReorgCount (stats (fst (HandleReorg c oldChain newChain stateDB))) =
           ReorgCount (stats c) + 1"
proof -
  let ?c1 = "c\<lparr>stats := (stats c)\<lparr>ReorgCount := ReorgCount (stats c) + 1\<rparr>\<rparr>"
  show ?thesis
  proof (cases "map_of (snapshots c) (commonAncestor oldChain newChain)")
    case None
    obtain c2 e where p: "Update ?c1 (last newChain) stateDB = (c2, e)"
      by (cases "Update ?c1 (last newChain) stateDB")
    with Update_ReorgCount [of ?c1 "last newChain" stateDB]
    have "ReorgCount (stats c2) = ReorgCount (stats c) + 1" by simp
    with assms None p show ?thesis by (simp add: HandleReorg_def Let_def)
  next
    case (Some s)
    obtain c3 e where p: "replay (?c1\<lparr>current := s\<rparr>) s newChain stateDB = (c3, e)"
      by (cases "replay (?c1\<lparr>current := s\<rparr>) s newChain stateDB")
    with replay_ReorgCount [of "?c1\<lparr>current := s\<rparr>" s newChain stateDB]
    have "ReorgCount (stats c3) = ReorgCount (stats c) + 1" by simp
    with assms Some p show ?thesis
      by (simp add: HandleReorg_def Let_def split: option.splits)
  qed
qed

text \<open>
  Claim C7. On an enabled cache, when the hash found by the ancestor search is not a
  key of the history and \<open>newChain\<close> has a last header, \<open>HandleReorg\<close> is the \<open>Update\<close> with
  that header: the current snapshot becomes the snapshot built for it. When the two chains
  share no hash, the hash found is the zero hash. Whatever the search finds, the reorg
  counter goes up by one.
\<close>

theorem HandleReorg_missing_ancestor:
  assumes "Enabled (config c)"
  shows "(map_of (snapshots c) (commonAncestor oldChain newChain) = None \<and> newChain \<noteq> [] \<longrightarrow>
            HandleReorg c oldChain newChain stateDB =
              (fst (Update (c\<lparr>stats := (stats c)\<lparr>ReorgCount := ReorgCount (stats c) + 1\<rparr>\<rparr>)
                      (last newChain) stateDB), Returned None) \<and>
            current (fst (HandleReorg c oldChain newChain stateDB)) =
              build_snapshot c (last newChain) stateDB \<and>
            BlockHash (current (fst (HandleReorg c oldChain newChain stateDB))) =
              Hash (last newChain) \<and>
            BlockNumber (current (fst (HandleReorg c oldChain newChain stateDB))) =
              Uint64 (Number (last newChain))) \<and>
         (Hash ` set oldChain \<inter> Hash ` set newChain = {} \<longrightarrow>
            commonAncestor oldChain newChain = 0) \<and>
         ReorgCount (stats (fst (HandleReorg c oldChain newChain stateDB))) =
           ReorgCount (stats c) + 1"
proof -
  let ?c1 = "c\<lparr>stats := (stats c)\<lparr>ReorgCount := ReorgCount (stats c) + 1\<rparr>\<rparr>"
  have e1: "Enabled (config ?c1)" using assms by simp
  obtain c2 e where p: "Update ?c1 (last newChain) stateDB = (c2, e)"
    by (cases "Update ?c1 (last newChain) stateDB")
  with Update_returns_nil [of ?c1 "last newChain" stateDB] have e: "e = None" by simp
  from p Update_current [OF e1, of "last newChain" stateDB]
  have cur: "current c2 = build_snapshot c (last newChain) stateDB" by simp
  have a: "HandleReorg c oldChain newChain stateDB = (c2, Returned None)"
    if "map_of (snapshots c) (commonAncestor oldChain newChain) = None" "newChain \<noteq> []"
    using that assms p e by (simp add: HandleReorg_def Let_def)
  show ?thesis
  proof (intro conjI impI)
    assume h: "map_of (snapshots c) (commonAncestor oldChain newChain) = None \<and> newChain \<noteq> []"
    then have a': "HandleReorg c oldChain newChain stateDB = (c2, Returned None)"
      using a by blast
    show "HandleReorg c oldChain newChain stateDB =
            (fst (Update ?c1 (last newChain) stateDB), Returned None)"
      using a' p by simp
    show "current (fst (HandleReorg c oldChain newChain stateDB)) =
            build_snapshot c (last newChain) stateDB"
      using a' cur by simp
    show "BlockHash (current (fst (HandleReorg c oldChain newChain stateDB))) =
            Hash (last newChain)"
      using a' cur by (simp add: build_snapshot_fields)
    show "BlockNumber (current (fst (HandleReorg c oldChain newChain stateDB))) =
            Uint64 (Number (last newChain))"
      using a' cur by (simp add: build_snapshot_fields)
  next
    assume "Hash ` set oldChain \<inter> Hash ` set newChain = {}"
    then show "commonAncestor oldChain newChain = 0" by (rule commonAncestor_no_match)
  next
    show "ReorgCount (stats (fst (HandleReorg c oldChain newChain stateDB))) =
            ReorgCount (stats c) + 1"
      using assms by (rule HandleReorg_ReorgCount)
  qed
qed

theorem HandleReorg_missing_ancestor_witness:
  "(let c = fst (Update (New \<lparr>Enabled = True, Watchlist = [], ShadowMode = True, MaxSnapshots = 1\<rparr>)
                   \<lparr>Number = 3, Hash = 33, ParentHash = 22, Time = 0\<rparr> (\<lambda>a s. 0));
        r = HandleReorg c [\<lparr>Number = 3, Hash = 33, ParentHash = 22, Time = 0\<rparr>]
              [\<lparr>Number = 5, Hash = 55, ParentHash = 44, Time = 0\<rparr>] (\<lambda>a s. 0)
    in snd r = Returned None \<and> BlockHash (current (fst r)) = 55 \<and>
       BlockNumber (current (fst r)) = 5 \<and>
       ReorgCount (stats (fst r)) = ReorgCount (stats c) + 1)"
proof -
  define c where "c = fst (Update (New \<lparr>Enabled = True, Watchlist = [], ShadowMode = True, MaxSnapshots = 1\<rparr>)
                   \<lparr>Number = 3, Hash = 33, ParentHash = 22, Time = 0\<rparr> (\<lambda>a s. 0))"
  have en: "Enabled (config c)" by (simp add: c_def Update_fields New_def)
  have sn: "map fst (snapshots c) = [33]"
    by (simp add: c_def Update_def New_def Let_def cleanupOldSnapshots_def)
  have ca: "commonAncestor [\<lparr>Number = 3, Hash = 33, ParentHash = 22, Time = 0\<rparr>]
              [\<lparr>Number = 5, Hash = 55, ParentHash = 44, Time = 0\<rparr>] = 0"
    by (simp add: commonAncestor_def)
  have "0 \<notin> set (map fst (snapshots c))" by (simp add: sn)
  then have no: "map_of (snapshots c) 0 = None" by (simp add: map_of_eq_None_iff)
  note t = HandleReorg_missing_ancestor [OF en, of "[\<lparr>Number = 3, Hash = 33, ParentHash = 22, Time = 0\<rparr>]"
              "[\<lparr>Number = 5, Hash = 55, ParentHash = 44, Time = 0\<rparr>]" "\<lambda>a s. 0"]
  let ?old = "[\<lparr>Number = 3, Hash = 33, ParentHash = 22, Time = 0\<rparr>]"
  let ?new = "[\<lparr>Number = 5, Hash = 55, ParentHash = 44, Time = 0\<rparr>]"
  let ?r = "HandleReorg c ?old ?new (\<lambda>a s. 0)"
  have pre: "map_of (snapshots c) (commonAncestor ?old ?new) = None \<and> ?new \<noteq> []"
    using no ca by simp
  from t pre have "?r = (fst (Update (c\<lparr>stats := (stats c)\<lparr>ReorgCount := ReorgCount (stats c) + 1\<rparr>\<rparr>)
                      (last ?new) (\<lambda>a s. 0)), Returned None)"
    by blast
  then have r1: "snd ?r = Returned None" by simp
  from t pre have r2: "BlockHash (current (fst ?r)) = Hash (last ?new)" by blast
  from t pre have r3: "BlockNumber (current (fst ?r)) = Uint64 (Number (last ?new))" by blast
  from t have r4: "ReorgCount (stats (fst ?r)) = ReorgCount (stats c) + 1" by blast
  show ?thesis
    unfolding Let_def c_def [symmetric] using r1 r2 r3 r4 by (simp add: Uint64_def)
qed

section \<open>The shadow validator: results\<close>

lemma validate_slots_None:
  "snd (validate_slots c addr xs stateDB) = None \<longleftrightarrow>
     (\<forall>(slot, v) \<in> set xs. v = stateDB addr slot)"
  by (induction xs) (auto simp add: Let_def split: if_splits)

lemma validate_slots_None_state:
  "snd (validate_slots c addr xs stateDB) = None \<Longrightarrow>
   fst (validate_slots c addr xs stateDB) = c"
  by (induction xs) (auto simp add: Let_def split: if_splits)

lemma validate_slots_Some:
  "snd (validate_slots c addr xs stateDB) = Some err \<Longrightarrow>
   (\<exists>slot v. (slot, v) \<in> set xs \<and> v \<noteq> stateDB addr slot \<and>
      err = InconsistentState addr slot v (stateDB addr slot)) \<and>
   fst (validate_slots c addr xs stateDB) =
     c\<lparr>stats := (stats c)\<lparr>ValidationErrors := ValidationErrors (stats c) + 1\<rparr>\<rparr>"
  by (induction xs) (auto simp add: Let_def split: if_splits)

lemma validate_contracts_None:
  "snd (validate_contracts c cs stateDB) = None \<longleftrightarrow>
     (\<forall>(addr, st) \<in> set cs. \<forall>(slot, v) \<in> set (RawSlots st). v = stateDB addr slot)"
proof (induction cs arbitrary: c)
  case Nil
  then show ?case by simp
next
  case (Cons x cs)
  obtain addr st where x: "x = (addr, st)" by (cases x)
  obtain c' e where v: "validate_slots c addr (RawSlots st) stateDB = (c', e)"
    by (cases "validate_slots c addr (RawSlots st) stateDB")
  show ?case
  proof (cases e)
    case None
    with v validate_slots_None [of c addr "RawSlots st" stateDB]
    have "\<forall>(slot, v) \<in> set (RawSlots st). v = stateDB addr slot" by simp
    with x v None Cons.IH [of c'] show ?thesis by simp
  next
    case (Some err)
    with v validate_slots_None [of c addr "RawSlots st" stateDB]
    have "\<not> (\<forall>(slot, v) \<in> set (RawSlots st). v = stateDB addr slot)" by simp
    with x v Some show ?thesis by simp
  qed
qed

lemma validate_contracts_None_state:
  "snd (validate_contracts c cs stateDB) = None \<Longrightarrow>
   fst (validate_contracts c cs stateDB) = c"
proof (induction cs arbitrary: c)
  case Nil
  then show ?case by simp
next
  case (Cons x cs)
  obtain addr st where x: "x = (addr, st)" by (cases x)
  obtain c' e where v: "validate_slots c addr (RawSlots st) stateDB = (c', e)"
    by (cases "validate_slots c addr (RawSlots st) stateDB")
  from Cons.prems x v have e: "e = None" by (cases e) simp_all
  with v validate_slots_None_state [of c addr "RawSlots st" stateDB] have "c' = c" by simp
  with Cons x v e show ?case by simp
qed

lemma validate_contracts_Some:
  "snd (validate_contracts c cs stateDB) = Some err \<Longrightarrow>
   (\<exists>addr st slot v. (addr, st) \<in> set cs \<and> (slot, v) \<in> set (RawSlots st) \<and>
      v \<noteq> stateDB addr slot \<and> err = InconsistentState addr slot v (stateDB addr slot)) \<and>
   fst (validate_contracts c cs stateDB) =
     c\<lparr>stats := (stats c)\<lparr>ValidationErrors := ValidationErrors (stats c) + 1\<rparr>\<rparr>"
proof (induction cs arbitrary: c)
  case Nil
  then show ?case by simp
next
  case (Cons x cs)
  obtain addr st where x: "x = (addr, st)" by (cases x)
  obtain c' e where v: "validate_slots c addr (RawSlots st) stateDB = (c', e)"
    by (cases "validate_slots c addr (RawSlots st) stateDB")
  show ?case
  proof (cases e)
    case None
    with v validate_slots_None_state [of c addr "RawSlots st" stateDB] have c': "c' = c" by simp
    from Cons.prems x v None c' have "snd (validate_contracts c cs stateDB) = Some err" by simp
    from Cons.IH [OF this] x v None c' show ?thesis by auto
  next
    case (Some err')
    with Cons.prems x v have "err' = err" by simp
    with v Some validate_slots_Some [of c addr "RawSlots st" stateDB err] x
    show ?thesis by auto
  qed
qed

text \<open>
  Claim C8. With shadow mode on, \<open>Validate\<close> returns an error exactly when some cached
  slot of some contract of the current snapshot differs from what the reader returns for
  it; the error is \<open>InconsistentState\<close> with the address, the slot, the cached and the
  canonical value of such a slot, and \<open>ValidationErrors\<close> goes up by one, nothing else
  changing. When every cached slot matches, or shadow mode is off, it returns no error and
  the cache is unchanged.
\<close>

theorem Validate_outcome:
  "(\<not> ShadowMode (config c) \<longrightarrow> Validate c stateDB = (c, None)) \<and>
   (ShadowMode (config c) \<longrightarrow>
      ((\<exists>err. snd (Validate c stateDB) = Some err) \<longleftrightarrow>
         (\<exists>(addr, st) \<in> set (Contracts (current c)).
            \<exists>(slot, v) \<in> set (RawSlots st). v \<noteq> stateDB addr slot)) \<and>
      (\<forall>err. snd (Validate c stateDB) = Some err \<longrightarrow>
         (\<exists>addr st slot v.
            (addr, st) \<in> set (Contracts (current c)) \<and> (slot, v) \<in> set (RawSlots st) \<and>
            v \<noteq> stateDB addr slot \<and>
            err = InconsistentState addr slot v (stateDB addr slot)) \<and>
         fst (Validate c stateDB) =
           c\<lparr>stats := (stats c)\<lparr>ValidationErrors := ValidationErrors (stats c) + 1\<rparr>\<rparr>) \<and>
      (snd (Validate c stateDB) = None \<longrightarrow> Validate c stateDB = (c, None)))"
proof (cases "ShadowMode (config c)")
  case False
  then show ?thesis by (simp add: Validate_def)
next
  case True
  let ?v = "validate_contracts c (Contracts (current c)) stateDB"
  have V: "Validate c stateDB = ?v"
    using True by (simp add: Validate_def GetSnapshot_def)
  have a: "(\<exists>err. snd ?v = Some err) \<longleftrightarrow>
         (\<exists>(addr, st) \<in> set (Contracts (current c)).
            \<exists>(slot, v) \<in> set (RawSlots st). v \<noteq> stateDB addr slot)"
    using validate_contracts_None [of c "Contracts (current c)" stateDB] by auto
  have b: "snd ?v = None \<longrightarrow> ?v = (c, None)"
    using validate_contracts_None_state [of c "Contracts (current c)" stateDB]
    by (simp add: prod_eq_iff)
  show ?thesis
    unfolding V using True a b validate_contracts_Some [of c "Contracts (current c)" stateDB]
    by blast
qed

theorem Validate_outcome_witness:
  "(let c = fst (Update
                  (RegisterDecoder
                     (New \<lparr>Enabled = True, Watchlist = [1], ShadowMode = True, MaxSnapshots = 64\<rparr>)
                     1 (OtherDecoder ContractTypeAave [6] (\<lambda>slots. Inr None)))
                  \<lparr>Number = 100, Hash = 5, ParentHash = 4, Time = 0\<rparr> (\<lambda>a s. 7))
    in Validate c (\<lambda>a s. 7) = (c, None) \<and>
       Validate c (\<lambda>a s. 9) =
         (c\<lparr>stats := (stats c)\<lparr>ValidationErrors := ValidationErrors (stats c) + 1\<rparr>\<rparr>,
          Some (InconsistentState 1 6 7 9)))"
proof -
  define c where "c = fst (Update
                  (RegisterDecoder
                     (New \<lparr>Enabled = True, Watchlist = [1], ShadowMode = True, MaxSnapshots = 64\<rparr>)
                     1 (OtherDecoder ContractTypeAave [6] (\<lambda>slots. Inr None)))
                  \<lparr>Number = 100, Hash = 5, ParentHash = 4, Time = 0\<rparr> (\<lambda>a s. 7))"
  have sm: "ShadowMode (config c)"
    by (simp add: c_def Update_fields RegisterDecoder_def New_def)
  have cur: "Contracts (current c) =
     [(1, \<lparr>Address = 1, Type = ContractTypeAave, RawSlots = [(6, 7)], Decoded = None,
            LastUpdated = 0\<rparr>)]"
    by (simp add: c_def Update_current RegisterDecoder_def New_def build_snapshot_def
          update_step_def updateContract_def read_slots_def)
  note ok = Validate_outcome [of c "\<lambda>a s. 7"]
  note bad = Validate_outcome [of c "\<lambda>a s. 9"]
  from ok sm cur have r1: "Validate c (\<lambda>a s. 7) = (c, None)"
    by (cases "snd (Validate c (\<lambda>a s. 7))") auto
  from bad sm cur obtain err where e: "snd (Validate c (\<lambda>a s. 9)) = Some err"
    by auto
  with bad sm cur have "err = InconsistentState 1 6 7 9"
    and "fst (Validate c (\<lambda>a s. 9)) =
           c\<lparr>stats := (stats c)\<lparr>ValidationErrors := ValidationErrors (stats c) + 1\<rparr>\<rparr>"
    by auto
  with e have r2: "Validate c (\<lambda>a s. 9) =
         (c\<lparr>stats := (stats c)\<lparr>ValidationErrors := ValidationErrors (stats c) + 1\<rparr>\<rparr>,
          Some (InconsistentState 1 6 7 9))"
    by (simp add: prod_eq_iff)
  show ?thesis
    unfolding Let_def c_def [symmetric] using r1 r2 by simp
qed

section \<open>Retention\<close>

lemma Update_snapshots:
  "Enabled (config c) \<Longrightarrow>
   snapshots (fst (Update c block stateDB)) =
     snapshots (cleanupOldSnapshots
       (c\<lparr>snapshots := AList.update (Hash block) (build_snapshot c block stateDB) (snapshots c)\<rparr>)
       (Uint64 (Number block)))"
  by (simp add: Update_def Let_def cleanupOldSnapshots_def)

lemma build_snapshot_empty_watchlist:
  "watchlist c = [] \<Longrightarrow>
   build_snapshot c block stateDB =
     \<lparr>BlockNumber = Uint64 (Number block), BlockHash = Hash block,
      BlockTime = Time block, Contracts = []\<rparr>"
  by (simp add: build_snapshot_def)

lemma Uint64_numeral: "Uint64 (numeral n) = numeral n" "Uint64 1 = 1" "Uint64 0 = 0"
  by (simp_all add: Uint64_def)

text \<open>
  Claim C1, on the code. With \<open>MaxSnapshots = 2\<close>, after \<open>Update\<close> for blocks 1, 2, 3, 4
  (hashes 1, 2, 3, 4) the history holds the three snapshots of blocks 2, 3 and 4: one more
  than \<open>MaxSnapshots\<close>. Block 1 is gone.
\<close>

theorem retention_keeps_three_of_four:
  "(let c0 = New \<lparr>Enabled = True, Watchlist = [], ShadowMode = True, MaxSnapshots = 2\<rparr>;
        c1 = fst (Update c0 \<lparr>Number = 1, Hash = 1, ParentHash = 0, Time = 0\<rparr> (\<lambda>a s. 0));
        c2 = fst (Update c1 \<lparr>Number = 2, Hash = 2, ParentHash = 1, Time = 0\<rparr> (\<lambda>a s. 0));
        c3 = fst (Update c2 \<lparr>Number = 3, Hash = 3, ParentHash = 2, Time = 0\<rparr> (\<lambda>a s. 0));
        c4 = fst (Update c3 \<lparr>Number = 4, Hash = 4, ParentHash = 3, Time = 0\<rparr> (\<lambda>a s. 0))
    in map fst (snapshots c4) = [2, 3, 4] \<and> length (snapshots c4) = 3 \<and>
       map_of (snapshots c4) 1 = None \<and> MaxSnapshots (config c4) = 2)"
proof -
  define c0 where "c0 = New \<lparr>Enabled = True, Watchlist = [], ShadowMode = True, MaxSnapshots = 2\<rparr>"
  define c1 where "c1 = fst (Update c0 \<lparr>Number = 1, Hash = 1, ParentHash = 0, Time = 0\<rparr> (\<lambda>a s. 0))"
  define c2 where "c2 = fst (Update c1 \<lparr>Number = 2, Hash = 2, ParentHash = 1, Time = 0\<rparr> (\<lambda>a s. 0))"
  define c3 where "c3 = fst (Update c2 \<lparr>Number = 3, Hash = 3, ParentHash = 2, Time = 0\<rparr> (\<lambda>a s. 0))"
  define c4 where "c4 = fst (Update c3 \<lparr>Number = 4, Hash = 4, ParentHash = 3, Time = 0\<rparr> (\<lambda>a s. 0))"
  define s :: "nat \<Rightarrow> hash \<times> Snapshot"
    where "s n = (of_nat n, \<lparr>BlockNumber = of_nat n, BlockHash = of_nat n, BlockTime = 0, Contracts = []\<rparr>)" for n
  have f0: "Enabled (config c0)" "MaxSnapshots (config c0) = 2" "watchlist c0 = []"
    and s0: "snapshots c0 = []"
    by (simp_all add: c0_def New_def)
  have f1: "Enabled (config c1)" "MaxSnapshots (config c1) = 2" "watchlist c1 = []"
    by (simp_all add: c1_def Update_fields f0)
  have f2: "Enabled (config c2)" "MaxSnapshots (config c2) = 2" "watchlist c2 = []"
    by (simp_all add: c2_def Update_fields f1)
  have f3: "Enabled (config c3)" "MaxSnapshots (config c3) = 2" "watchlist c3 = []"
    by (simp_all add: c3_def Update_fields f2)
  have f4: "MaxSnapshots (config c4) = 2"
    by (simp add: c4_def Update_fields f3)
  have s1: "snapshots c1 = [s 1]"
    unfolding c1_def
    by (simp add: Update_snapshots f0 s0 build_snapshot_empty_watchlist cleanupOldSnapshots_def
          Uint64_numeral s_def)
  have s2: "snapshots c2 = [s 1, s 2]"
    unfolding c2_def
    by (simp add: Update_snapshots f1 s1 build_snapshot_empty_watchlist cleanupOldSnapshots_def
          Uint64_numeral s_def)
  have s3: "snapshots c3 = [s 1, s 2, s 3]"
    unfolding c3_def
    by (simp add: Update_snapshots f2 s2 build_snapshot_empty_watchlist cleanupOldSnapshots_def
          Uint64_numeral s_def)
  have s4: "snapshots c4 = [s 2, s 3, s 4]"
    unfolding c4_def
    by (simp add: Update_snapshots f3 s3 build_snapshot_empty_watchlist cleanupOldSnapshots_def
          Uint64_numeral s_def)
  show ?thesis
    unfolding Let_def c0_def [symmetric] c1_def [symmetric] c2_def [symmetric]
      c3_def [symmetric] c4_def [symmetric]
    by (simp add: s4 f4 s_def)
qed

section \<open>Reorg between chains that share no hash\<close>

lemma cleanup_fold_noop:
  "\<forall>(h, sn) \<in> set xs. \<not> BlockNumber sn < cutoff \<Longrightarrow>
   foldl (\<lambda>m (hash, snapshot).
            if BlockNumber snapshot < cutoff then AList.delete hash m else m) m xs = m"
  by (induction xs arbitrary: m) auto

lemma cleanupOldSnapshots_noop:
  assumes "\<forall>(h, sn) \<in> set (snapshots c).
             \<not> BlockNumber sn < (if n > MaxSnapshots (config c)
                                  then n - MaxSnapshots (config c) else 0)"
  shows "cleanupOldSnapshots c n = c"
  using cleanup_fold_noop [OF assms, of "snapshots c"]
  by (simp add: cleanupOldSnapshots_def Let_def)

lemma cutoff_small:
  fixes n M :: uint64
  assumes "n \<le> 3" "2 \<le> M"
  shows "(if n > M then n - M else 0) \<le> 1"
  using assms by unat_arith

lemma set_update_cases:
  "(h, sn) \<in> set (AList.update k v al) \<Longrightarrow> (h, sn) \<in> set al \<or> (h, sn) = (k, v)"
  by (induction al) (auto split: if_splits)

lemma Update_snapshots_kept:
  assumes "Enabled (config c)" and "2 \<le> MaxSnapshots (config c)"
    and "Uint64 (Number block) \<le> 3" and "1 \<le> Uint64 (Number block)"
    and "\<forall>(h, sn) \<in> set (snapshots c). 1 \<le> BlockNumber sn"
  shows "snapshots (fst (Update c block stateDB)) =
           AList.update (Hash block) (build_snapshot c block stateDB) (snapshots c)"
proof -
  let ?c2 = "c\<lparr>snapshots :=
                 AList.update (Hash block) (build_snapshot c block stateDB) (snapshots c)\<rparr>"
  let ?cut = "if Uint64 (Number block) > MaxSnapshots (config ?c2)
              then Uint64 (Number block) - MaxSnapshots (config ?c2) else 0"
  have cut: "?cut \<le> 1" using cutoff_small [OF assms(3,2)] by (simp split: if_splits)
  have "1 \<le> BlockNumber sn" if "(h, sn) \<in> set (snapshots ?c2)" for h sn
  proof -
    from that have "(h, sn) \<in> set (snapshots c) \<or> sn = build_snapshot c block stateDB"
      by (auto dest: set_update_cases)
    then show ?thesis using assms(4,5) by (auto simp add: build_snapshot_fields)
  qed
  then have "\<forall>(h, sn) \<in> set (snapshots ?c2). \<not> BlockNumber sn < ?cut"
    using cut by (auto simp add: not_less intro: order_trans)
  then have "cleanupOldSnapshots ?c2 (Uint64 (Number block)) = ?c2"
    by (rule cleanupOldSnapshots_noop)
  then show ?thesis using assms(1) by (simp add: Update_snapshots)
qed

lemma Uint64_small: "Uint64 1 = 1" "Uint64 2 = 2" "Uint64 3 = 3"
  by (simp_all add: Uint64_def)

lemma reorg_disjoint_chains_history:
  fixes c0 :: Cache and h1 h2a h3a h2b h3b :: Header and stateDB :: StateReader
  assumes en: "Enabled (config c0)" and emp: "snapshots c0 = []"
    and room: "2 \<le> MaxSnapshots (config c0)"
    and nums: "Number h1 = 1" "Number h2a = 2" "Number h3a = 3" "Number h2b = 2"
      "Number h3b = 3"
    and dist: "distinct [0, Hash h1, Hash h2a, Hash h3a, Hash h2b, Hash h3b]"
  defines "c3 \<equiv> fst (Update (fst (Update (fst (Update c0 h1 stateDB)) h2a stateDB)) h3a stateDB)"
  defines "r \<equiv> HandleReorg c3 [h2a, h3a] [h2b, h3b] stateDB"
  shows "commonAncestor [h2a, h3a] [h2b, h3b] = 0 \<and>
         snd r = Returned None \<and>
         BlockHash (current (fst r)) = Hash h3b \<and>
         BlockNumber (current (fst r)) = 3 \<and>
         map fst (snapshots (fst r)) = [Hash h1, Hash h2a, Hash h3a, Hash h3b] \<and>
         map_of (snapshots (fst r)) (Hash h1) \<noteq> None \<and>
         map_of (snapshots (fst r)) (Hash h3b) \<noteq> None \<and>
         map_of (snapshots (fst r)) (Hash h2b) = None \<and>
         ReorgCount (stats (fst r)) = ReorgCount (stats c3) + 1"
proof -
  define c1 where "c1 = fst (Update c0 h1 stateDB)"
  define c2 where "c2 = fst (Update c1 h2a stateDB)"
  have c3: "c3 = fst (Update c2 h3a stateDB)" by (simp add: c3_def c2_def c1_def)
  define c3' where "c3' = c3\<lparr>stats := (stats c3)\<lparr>ReorgCount := ReorgCount (stats c3) + 1\<rparr>\<rparr>"
  have f1: "Enabled (config c1)" "2 \<le> MaxSnapshots (config c1)"
    using en room by (simp_all add: c1_def Update_fields)
  have f2: "Enabled (config c2)" "2 \<le> MaxSnapshots (config c2)"
    using f1 by (simp_all add: c2_def Update_fields)
  have f3: "Enabled (config c3)" "2 \<le> MaxSnapshots (config c3)"
    using f2 by (simp_all add: c3 Update_fields)
  have f3': "Enabled (config c3')" "2 \<le> MaxSnapshots (config c3')"
    using f3 by (simp_all add: c3'_def)
  have d: "Hash h1 \<noteq> Hash h2a" "Hash h1 \<noteq> Hash h3a" "Hash h2a \<noteq> Hash h3a"
    "Hash h1 \<noteq> Hash h3b" "Hash h2a \<noteq> Hash h3b" "Hash h3a \<noteq> Hash h3b"
    "Hash h2b \<noteq> Hash h1" "Hash h2b \<noteq> Hash h2a" "Hash h2b \<noteq> Hash h3a" "Hash h2b \<noteq> Hash h3b"
    "Hash h2a \<noteq> Hash h2b" "Hash h3a \<noteq> Hash h2b"
    "Hash h1 \<noteq> 0" "Hash h2a \<noteq> 0" "Hash h3a \<noteq> 0"
    using dist by auto
  have s1: "snapshots c1 = [(Hash h1, build_snapshot c0 h1 stateDB)]"
    unfolding c1_def
    using Update_snapshots_kept [OF en room, of h1 stateDB]
    by (simp add: nums Uint64_small emp)
  have s2: "snapshots c2 =
      [(Hash h1, build_snapshot c0 h1 stateDB), (Hash h2a, build_snapshot c1 h2a stateDB)]"
    unfolding c2_def
    using Update_snapshots_kept [OF f1, of h2a stateDB] d
    by (simp add: nums Uint64_small s1 build_snapshot_fields)
  have s3: "snapshots c3 =
      [(Hash h1, build_snapshot c0 h1 stateDB), (Hash h2a, build_snapshot c1 h2a stateDB),
       (Hash h3a, build_snapshot c2 h3a stateDB)]"
    unfolding c3
    using Update_snapshots_kept [OF f2, of h3a stateDB] d
    by (simp add: nums Uint64_small s2 build_snapshot_fields)
  have s3': "snapshots c3' = snapshots c3" by (simp add: c3'_def)
  have s4: "snapshots (fst (Update c3' h3b stateDB)) =
      [(Hash h1, build_snapshot c0 h1 stateDB), (Hash h2a, build_snapshot c1 h2a stateDB),
       (Hash h3a, build_snapshot c2 h3a stateDB), (Hash h3b, build_snapshot c3' h3b stateDB)]"
    using Update_snapshots_kept [OF f3', of h3b stateDB] d
    by (simp add: nums Uint64_small s3 s3' build_snapshot_fields)
  have ca: "commonAncestor [h2a, h3a] [h2b, h3b] = 0"
    using d by (simp add: commonAncestor_def)
  have no: "map_of (snapshots c3) 0 = None"
    using d by (simp add: s3)
  obtain c4 e where u: "Update c3' h3b stateDB = (c4, e)"
    by (cases "Update c3' h3b stateDB")
  with Update_returns_nil [of c3' h3b stateDB] have e: "e = None" by simp
  have r: "r = (c4, Returned None)"
    using f3 ca no u e by (simp add: r_def HandleReorg_def Let_def c3'_def)
  have c4: "c4 = fst (Update c3' h3b stateDB)" using u by simp
  have cur: "current c4 = build_snapshot c3' h3b stateDB"
    unfolding c4 using f3'(1) by (rule Update_current)
  have rc: "ReorgCount (stats c4) = ReorgCount (stats c3) + 1"
    unfolding c4 by (simp add: Update_ReorgCount c3'_def)
  show ?thesis
    using d by (simp add: ca r cur rc build_snapshot_fields nums Uint64_small s4 [folded c4])
qed

text \<open>
  Claim C2, as the code has it. On an enabled cache with an empty history and room for at
  least two snapshots, after \<open>Update\<close> for H1, H2a, H3a (blocks 1, 2, 3), the call
  \<open>HandleReorg [H2a, H3a] [H2b, H3b]\<close> with five distinct non-zero hashes finds no common
  ancestor: the search compares the hashes of the two lists and never reads a parent hash,
  so it ends with the zero hash. That hash is not in the history, and the cache is rebuilt
  from the last header alone: the current snapshot is that of H3b, the history holds H1,
  H2a, H3a and H3b but not H2b, and the reorg counter goes up by one.
\<close>

theorem HandleReorg_disjoint_chains:
  fixes c0 :: Cache and h1 h2a h3a h2b h3b :: Header and stateDB :: StateReader
  assumes "Enabled (config c0)" and "snapshots c0 = []"
    and "2 \<le> MaxSnapshots (config c0)"
    and "Number h1 = 1" "Number h2a = 2" "Number h3a = 3" "Number h2b = 2"
      "Number h3b = 3"
    and "distinct [0, Hash h1, Hash h2a, Hash h3a, Hash h2b, Hash h3b]"
  defines "c3 \<equiv> fst (Update (fst (Update (fst (Update c0 h1 stateDB)) h2a stateDB)) h3a stateDB)"
  defines "r \<equiv> HandleReorg c3 [h2a, h3a] [h2b, h3b] stateDB"
  shows "commonAncestor [h2a, h3a] [h2b, h3b] = 0 \<and>
         snd r = Returned None \<and>
         BlockHash (current (fst r)) = Hash h3b \<and>
         BlockNumber (current (fst r)) = 3 \<and>
         map fst (snapshots (fst r)) = [Hash h1, Hash h2a, Hash h3a, Hash h3b] \<and>
         map_of (snapshots (fst r)) (Hash h1) \<noteq> None \<and>
         map_of (snapshots (fst r)) (Hash h3b) \<noteq> None \<and>
         map_of (snapshots (fst r)) (Hash h2b) = None \<and>
         ReorgCount (stats (fst r)) = ReorgCount (stats c3) + 1"
  unfolding c3_def r_def using assms(1-9) by (rule reorg_disjoint_chains_history)

theorem HandleReorg_disjoint_chains_witness:
  "(let c0 = New \<lparr>Enabled = True, Watchlist = [], ShadowMode = True, MaxSnapshots = 64\<rparr>;
        h1 = \<lparr>Number = 1, Hash = 1, ParentHash = 100, Time = 0\<rparr>;
        h2a = \<lparr>Number = 2, Hash = 2, ParentHash = 1, Time = 0\<rparr>;
        h3a = \<lparr>Number = 3, Hash = 3, ParentHash = 2, Time = 0\<rparr>;
        h2b = \<lparr>Number = 2, Hash = 12, ParentHash = 1, Time = 0\<rparr>;
        h3b = \<lparr>Number = 3, Hash = 13, ParentHash = 12, Time = 0\<rparr>;
        c3 = fst (Update (fst (Update (fst (Update c0 h1 (\<lambda>a s. 0))) h2a (\<lambda>a s. 0)))
                    h3a (\<lambda>a s. 0));
        r = HandleReorg c3 [h2a, h3a] [h2b, h3b] (\<lambda>a s. 0)
    in commonAncestor [h2a, h3a] [h2b, h3b] = 0 \<and> snd r = Returned None \<and>
       BlockHash (current (fst r)) = 13 \<and>
       map fst (snapshots (fst r)) = [1, 2, 3, 13] \<and>
       ReorgCount (stats (fst r)) = ReorgCount (stats c3) + 1)"
  using HandleReorg_disjoint_chains
    [of "New \<lparr>Enabled = True, Watchlist = [], ShadowMode = True, MaxSnapshots = 64\<rparr>"
        "\<lparr>Number = 1, Hash = 1, ParentHash = 100, Time = 0\<rparr>"
        "\<lparr>Number = 2, Hash = 2, ParentHash = 1, Time = 0\<rparr>"
        "\<lparr>Number = 3, Hash = 3, ParentHash = 2, Time = 0\<rparr>"
        "\<lparr>Number = 2, Hash = 12, ParentHash = 1, Time = 0\<rparr>"
        "\<lparr>Number = 3, Hash = 13, ParentHash = 12, Time = 0\<rparr>" "\<lambda>a s. 0"]
  by (simp add: New_def Let_def)

text \<open>
  The claim as the spec states it fails on this input: with \<open>H2b.parent = H1\<close> the
  ancestor found is not H1, and H2b is not in the history afterwards.
\<close>

theorem HandleReorg_known_ancestor_counterexample:
  "(let c0 = New \<lparr>Enabled = True, Watchlist = [], ShadowMode = True, MaxSnapshots = 64\<rparr>;
        h1 = \<lparr>Number = 1, Hash = 1, ParentHash = 100, Time = 0\<rparr>;
        h2a = \<lparr>Number = 2, Hash = 2, ParentHash = 1, Time = 0\<rparr>;
        h3a = \<lparr>Number = 3, Hash = 3, ParentHash = 2, Time = 0\<rparr>;
        h2b = \<lparr>Number = 2, Hash = 12, ParentHash = 1, Time = 0\<rparr>;
        h3b = \<lparr>Number = 3, Hash = 13, ParentHash = 12, Time = 0\<rparr>;
        c3 = fst (Update (fst (Update (fst (Update c0 h1 (\<lambda>a s. 0))) h2a (\<lambda>a s. 0)))
                    h3a (\<lambda>a s. 0));
        r = HandleReorg c3 [h2a, h3a] [h2b, h3b] (\<lambda>a s. 0)
    in ParentHash h2b = Hash h1 \<and>
       commonAncestor [h2a, h3a] [h2b, h3b] \<noteq> Hash h1 \<and>
       map_of (snapshots (fst r)) (Hash h2b) = None)"
  using reorg_disjoint_chains_history
    [of "New \<lparr>Enabled = True, Watchlist = [], ShadowMode = True, MaxSnapshots = 64\<rparr>"
        "\<lparr>Number = 1, Hash = 1, ParentHash = 100, Time = 0\<rparr>"
        "\<lparr>Number = 2, Hash = 2, ParentHash = 1, Time = 0\<rparr>"
        "\<lparr>Number = 3, Hash = 3, ParentHash = 2, Time = 0\<rparr>"
        "\<lparr>Number = 2, Hash = 12, ParentHash = 1, Time = 0\<rparr>"
        "\<lparr>Number = 3, Hash = 13, ParentHash = 12, Time = 0\<rparr>" "\<lambda>a s. 0"]
  by (simp add: New_def Let_def)

text \<open>
  When both lists start with the ancestor itself, the search finds it and the new chain
  is replayed block by block.
\<close>

lemma reorg_shared_ancestor:
  fixes c0 :: Cache and h1 h2a h3a h2b h3b :: Header and stateDB :: StateReader
  assumes en: "Enabled (config c0)" and emp: "snapshots c0 = []"
    and room: "2 \<le> MaxSnapshots (config c0)"
    and nums: "Number h1 = 1" "Number h2a = 2" "Number h3a = 3" "Number h2b = 2"
      "Number h3b = 3"
    and dist: "distinct [0, Hash h1, Hash h2a, Hash h3a, Hash h2b, Hash h3b]"
  defines "c3 \<equiv> fst (Update (fst (Update (fst (Update c0 h1 stateDB)) h2a stateDB)) h3a stateDB)"
  defines "r \<equiv> HandleReorg c3 [h1, h2a, h3a] [h1, h2b, h3b] stateDB"
  shows "commonAncestor [h1, h2a, h3a] [h1, h2b, h3b] = Hash h1 \<and>
         snd r = Returned None \<and>
         BlockHash (current (fst r)) = Hash h3b \<and>
         map fst (snapshots (fst r)) = [Hash h1, Hash h2a, Hash h3a, Hash h2b, Hash h3b] \<and>
         ReorgCount (stats (fst r)) = ReorgCount (stats c3) + 1"
proof -
  define c1 where "c1 = fst (Update c0 h1 stateDB)"
  define c2 where "c2 = fst (Update c1 h2a stateDB)"
  have c3: "c3 = fst (Update c2 h3a stateDB)" by (simp add: c3_def c2_def c1_def)
  define s1 where "s1 = build_snapshot c0 h1 stateDB"
  define c3' where "c3' = c3\<lparr>stats := (stats c3)\<lparr>ReorgCount := ReorgCount (stats c3) + 1\<rparr>,
                            current := s1\<rparr>"
  define c4 where "c4 = fst (Update c3' h2b stateDB)"
  define c5 where "c5 = fst (Update c4 h3b stateDB)"
  have f1: "Enabled (config c1)" "2 \<le> MaxSnapshots (config c1)"
    using en room by (simp_all add: c1_def Update_fields)
  have f2: "Enabled (config c2)" "2 \<le> MaxSnapshots (config c2)"
    using f1 by (simp_all add: c2_def Update_fields)
  have f3: "Enabled (config c3)" "2 \<le> MaxSnapshots (config c3)"
    using f2 by (simp_all add: c3 Update_fields)
  have f3': "Enabled (config c3')" "2 \<le> MaxSnapshots (config c3')"
    using f3 by (simp_all add: c3'_def)
  have f4: "Enabled (config c4)" "2 \<le> MaxSnapshots (config c4)"
    using f3' by (simp_all add: c4_def Update_fields)
  have d: "Hash h1 \<noteq> Hash h2a" "Hash h1 \<noteq> Hash h3a" "Hash h2a \<noteq> Hash h3a"
    "Hash h1 \<noteq> Hash h3b" "Hash h2a \<noteq> Hash h3b" "Hash h3a \<noteq> Hash h3b"
    "Hash h1 \<noteq> Hash h2b" "Hash h2a \<noteq> Hash h2b" "Hash h3a \<noteq> Hash h2b"
    "Hash h2b \<noteq> Hash h3b" "Hash h1 \<noteq> 0" "Hash h2a \<noteq> 0" "Hash h3a \<noteq> 0"
    using dist by auto
  have s1: "snapshots c1 = [(Hash h1, s1)]"
    unfolding c1_def s1_def
    using Update_snapshots_kept [OF en room, of h1 stateDB]
    by (simp add: nums Uint64_small emp)
  have s2: "snapshots c2 = [(Hash h1, s1), (Hash h2a, build_snapshot c1 h2a stateDB)]"
    unfolding c2_def
    using Update_snapshots_kept [OF f1, of h2a stateDB] d
    by (simp add: nums Uint64_small s1 s1_def build_snapshot_fields)
  have s3: "snapshots c3 =
      [(Hash h1, s1), (Hash h2a, build_snapshot c1 h2a stateDB),
       (Hash h3a, build_snapshot c2 h3a stateDB)]"
    unfolding c3
    using Update_snapshots_kept [OF f2, of h3a stateDB] d
    by (simp add: nums Uint64_small s2 s1_def build_snapshot_fields)
  have s3': "snapshots c3' = snapshots c3" by (simp add: c3'_def)
  have s4: "snapshots c4 =
      [(Hash h1, s1), (Hash h2a, build_snapshot c1 h2a stateDB),
       (Hash h3a, build_snapshot c2 h3a stateDB), (Hash h2b, build_snapshot c3' h2b stateDB)]"
    unfolding c4_def
    using Update_snapshots_kept [OF f3', of h2b stateDB] d
    by (simp add: nums Uint64_small s3 s3' s1_def build_snapshot_fields)
  have s5: "snapshots c5 =
      [(Hash h1, s1), (Hash h2a, build_snapshot c1 h2a stateDB),
       (Hash h3a, build_snapshot c2 h3a stateDB), (Hash h2b, build_snapshot c3' h2b stateDB),
       (Hash h3b, build_snapshot c4 h3b stateDB)]"
    unfolding c5_def
    using Update_snapshots_kept [OF f4, of h3b stateDB] d
    by (simp add: nums Uint64_small s4 s1_def build_snapshot_fields)
  have ca: "commonAncestor [h1, h2a, h3a] [h1, h2b, h3b] = Hash h1"
    using d by (simp add: commonAncestor_def)
  have look: "map_of (snapshots c3) (Hash h1) = Some s1"
    by (simp add: s3)
  have n1: "BlockNumber s1 = 1" by (simp add: s1_def build_snapshot_fields nums Uint64_small)
  have u4: "Update c3' h2b stateDB = (c4, None)"
    using Update_returns_nil [of c3' h2b stateDB] by (simp add: c4_def prod_eq_iff)
  have u5: "Update c4 h3b stateDB = (c5, None)"
    using Update_returns_nil [of c4 h3b stateDB] by (simp add: c5_def prod_eq_iff)
  have w: "\<not> (3::uint64) \<le> 1" "\<not> (2::uint64) \<le> 1"
    by (simp_all add: word_le_nat_alt)
  have rp: "replay c3' s1 [h1, h2b, h3b] stateDB = (c5, None)"
    by (simp add: n1 nums Uint64_small u4 u5 w)
  have r: "r = (c5, Returned None)"
    using f3 ca look rp by (simp add: r_def HandleReorg_def Let_def c3'_def)
  have cur: "current c5 = build_snapshot c4 h3b stateDB"
    unfolding c5_def using f4(1) by (rule Update_current)
  have rc: "ReorgCount (stats c5) = ReorgCount (stats c3) + 1"
    by (simp add: c5_def c4_def Update_ReorgCount c3'_def)
  show ?thesis
    by (simp add: ca r cur rc build_snapshot_fields s5)
qed

section \<open>Prices: results\<close>

lemma bitlen_nat_bounds:
  "0 < n \<Longrightarrow> 2 ^ (bitlen_nat n - 1) \<le> n \<and> n < 2 ^ bitlen_nat n"
proof (induction n rule: bitlen_nat.induct)
  case (1 n)
  show ?case
  proof (cases "n div 2 = 0")
    case True
    with "1.prems" have "n = 1" by (simp add: div_eq_0_iff) 
    then show ?thesis by (simp add: bitlen_nat.simps)
  next
    case False
    then have pos: "0 < n div 2" by simp
    from "1.prems" have n0: "n \<noteq> 0" by simp
    define k where "k = bitlen_nat (n div 2)"
    from "1.IH" [OF n0 pos] have lo: "2 ^ (k - 1) \<le> n div 2" and hi: "n div 2 < 2 ^ k"
      by (simp_all add: k_def)
    have k: "0 < k" using pos by (simp add: k_def bitlen_nat.simps [of "n div 2"])
    have bl: "bitlen_nat n = Suc k" using n0 by (simp add: k_def bitlen_nat.simps [of n])
    have "(2::nat) ^ k = 2 * 2 ^ (k - 1)" using k by (cases k) simp_all
    then have a: "(2::nat) ^ k \<le> n" using lo by linarith
    have b: "n < 2 ^ Suc k" using hi by simp
    show ?thesis using a b by (simp add: bl)
  qed
qed

lemma BitLen_bounds:
  assumes "0 < A"
  shows "0 < BitLen A" and "(2::rat) ^ (BitLen A - 1) \<le> of_int A"
    and "(of_int A :: rat) < 2 ^ BitLen A"
proof -
  have n: "0 < nat \<bar>A\<bar>" using assms by simp
  note b = bitlen_nat_bounds [OF n]
  show "0 < BitLen A" using n by (simp add: BitLen_def bitlen_nat.simps [of "nat \<bar>A\<bar>"])
  have e: "(of_int A :: rat) = of_nat (nat \<bar>A\<bar>)" using assms by simp
  have "(of_nat (2 ^ (bitlen_nat (nat \<bar>A\<bar>) - 1)) :: rat) \<le> of_nat (nat \<bar>A\<bar>)"
    using b by (simp only: of_nat_le_iff)
  then show "(2::rat) ^ (BitLen A - 1) \<le> of_int A"
    unfolding e by (simp add: BitLen_def)
  have "(of_nat (nat \<bar>A\<bar>) :: rat) < of_nat (2 ^ bitlen_nat (nat \<bar>A\<bar>))"
    using b by (simp only: of_nat_less_iff)
  then show "(of_int A :: rat) < 2 ^ BitLen A"
    unfolding e by (simp add: BitLen_def)
qed

lemma round_half_even_near:
  assumes "0 < D"
  shows "\<bar>(of_int (round_half_even N D) :: rat) - of_int N / of_int D\<bar> \<le> 1 / 2"
proof -
  define q where "q = N div D"
  define r where "r = N mod D"
  have N: "N = q * D + r" by (simp add: q_def r_def)
  have r: "0 \<le> r" "r < D" using assms by (simp_all add: r_def)
  have D: "(0::rat) < of_int D" using assms by simp
  have frac: "(of_int N :: rat) / of_int D = of_int q + of_int r / of_int D"
    using D by (simp add: N add_divide_distrib)
  have rd0: "(0::rat) \<le> of_int r / of_int D" using r D by simp
  have rd1: "(of_int r :: rat) / of_int D < 1" using r D by simp
  define x :: rat where "x = of_int r / of_int D"
  have x0: "0 \<le> x" and x1: "x < 1" using rd0 rd1 by (simp_all add: x_def)
  have fx: "(of_int N :: rat) / of_int D = of_int q + x"
    by (simp only: frac x_def)
  have e1: "\<bar>(of_int q :: rat) - of_int N / of_int D\<bar> = x"
    using x0 by (simp add: fx)
  have e2: "\<bar>(of_int (q + 1) :: rat) - of_int N / of_int D\<bar> = 1 - x"
    using x1 by (simp add: fx)
  consider "2 * r < D" | "D < 2 * r" | "2 * r = D" by linarith
  then show ?thesis
  proof cases
    case 1
    then have "(of_int (2 * r) :: rat) < of_int D" by (simp only: of_int_less_iff)
    then have "x < 1 / 2" using D by (simp add: field_simps x_def)
    moreover have "round_half_even N D = q"
      using 1 by (simp add: round_half_even_def Let_def q_def r_def)
    ultimately show ?thesis using e1 by simp
  next
    case 2
    then have "(of_int D :: rat) < of_int (2 * r)" by (simp only: of_int_less_iff)
    then have "1 / 2 < x" using D by (simp add: field_simps x_def)
    moreover have "round_half_even N D = q + 1"
      using 2 by (simp add: round_half_even_def Let_def q_def r_def)
    ultimately show ?thesis using e2 by simp
  next
    case 3
    then have "(of_int (2 * r) :: rat) = of_int D" by (simp only: of_int_eq_iff)
    then have h: "x = 1 / 2" using D by (simp add: field_simps x_def)
    have "round_half_even N D = q \<or> round_half_even N D = q + 1"
      using 3 by (simp add: round_half_even_def Let_def q_def r_def)
    then show ?thesis
    proof
      assume "round_half_even N D = q"
      with e1 h show ?thesis by simp
    next
      assume "round_half_even N D = q + 1"
      with e2 h show ?thesis by simp
    qed
  qed
qed

lemma powi_split: "(2::rat) powi k = 2 ^ nat k / 2 ^ nat (- k)"
  by (cases "0 \<le> k") (simp_all add: power_int_def power_one_over)

lemma ratio_exponent_lower:
  assumes "0 < A" "0 < B"
  shows "(2::rat) powi (ratio_exponent A B - 1) \<le> of_int A / of_int B"
proof -
  define la where "la = BitLen A"
  define lb where "lb = BitLen B"
  define d where "d = int la - int lb"
  have A: "(0::rat) < of_int A" and B: "(0::rat) < of_int B" using assms by simp_all
  note bA = BitLen_bounds [OF assms(1), folded la_def]
  note bB = BitLen_bounds [OF assms(2), folded lb_def]
  show ?thesis
  proof (cases "A * 2 ^ nat (- d) < B * 2 ^ nat d")
    case True
    then have e: "ratio_exponent A B = d"
      by (simp add: ratio_exponent_def Let_def d_def la_def lb_def)
    have "d - 1 = int (la - 1) - int lb" using bA(1) by (simp add: d_def)
    then have "(2::rat) powi (d - 1) = 2 ^ (la - 1) / 2 ^ lb"
      by (simp add: power_int_diff)
    also have "\<dots> \<le> of_int A / of_int B"
    proof (rule frac_le)
      show "(0::rat) \<le> of_int A" using A by (rule less_imp_le)
      show "(2::rat) ^ (la - 1) \<le> of_int A" by (rule bA(2))
      show "(0::rat) < of_int B" by (rule B)
      show "(of_int B :: rat) \<le> 2 ^ lb" using bB(3) by (rule less_imp_le)
    qed
    finally show ?thesis by (simp add: e)
  next
    case False
    then have e: "ratio_exponent A B = d + 1"
      by (simp add: ratio_exponent_def Let_def d_def la_def lb_def)
    from False have "B * 2 ^ nat d \<le> A * 2 ^ nat (- d)" by simp
    then have "(of_int (B * 2 ^ nat d) :: rat) \<le> of_int (A * 2 ^ nat (- d))"
      by (simp only: of_int_le_iff)
    then have "(of_int B :: rat) * 2 ^ nat d \<le> of_int A * 2 ^ nat (- d)" by simp
    then have "(2::rat) ^ nat d / 2 ^ nat (- d) \<le> of_int A / of_int B"
      using B by (simp add: field_simps)
    then show ?thesis by (simp add: e powi_split [of d])
  qed
qed

lemma ratio_exponent_upper:
  assumes "0 < A" "0 < B"
  shows "of_int A / of_int B < (2::rat) powi (ratio_exponent A B)"
proof -
  define la where "la = BitLen A"
  define lb where "lb = BitLen B"
  define d where "d = int la - int lb"
  have A: "(0::rat) < of_int A" and B: "(0::rat) < of_int B" using assms by simp_all
  note bA = BitLen_bounds [OF assms(1), folded la_def]
  note bB = BitLen_bounds [OF assms(2), folded lb_def]
  show ?thesis
  proof (cases "A * 2 ^ nat (- d) < B * 2 ^ nat d")
    case True
    then have e: "ratio_exponent A B = d"
      by (simp add: ratio_exponent_def Let_def d_def la_def lb_def)
    from True have "(of_int (A * 2 ^ nat (- d)) :: rat) < of_int (B * 2 ^ nat d)"
      by (simp only: of_int_less_iff)
    then have "(of_int A :: rat) * 2 ^ nat (- d) < of_int B * 2 ^ nat d" by simp
    then have "of_int A / of_int B < (2::rat) ^ nat d / 2 ^ nat (- d)"
      using B by (simp add: field_simps)
    then show ?thesis by (simp add: e powi_split [of d])
  next
    case False
    then have e: "ratio_exponent A B = d + 1"
      by (simp add: ratio_exponent_def Let_def d_def la_def lb_def)
    have "d + 1 = int la - int (lb - 1)" using bB(1) by (simp add: d_def)
    then have p: "(2::rat) powi (d + 1) = 2 ^ la / 2 ^ (lb - 1)"
      by (simp add: power_int_diff)
    have "of_int A / of_int B < (2::rat) ^ la / of_int B"
      using bA(3) B by (simp add: divide_strict_right_mono)
    also have "\<dots> \<le> 2 ^ la / 2 ^ (lb - 1)"
    proof (rule divide_left_mono)
      show "(2::rat) ^ (lb - 1) \<le> of_int B" by (rule bB(2))
      show "(0::rat) \<le> 2 ^ la" by simp
      show "(0::rat) < of_int B * 2 ^ (lb - 1)" using B by simp
    qed
    finally show ?thesis by (simp add: e p)
  qed
qed

lemma round_ratio_pos:
  assumes "0 < a" "0 < b"
  shows "round_ratio p a b ex =
           Finite p (round_half_even (a * 2 ^ nat (int p - ratio_exponent a b))
                       (b * 2 ^ nat (- (int p - ratio_exponent a b))))
             (ex - (int p - ratio_exponent a b))"
  using assms by (simp add: round_ratio_def Let_def)

lemma round_ratio_error:
  assumes "0 < a" "0 < b"
  shows "\<bar>float_val (round_ratio p a b 0) - of_int a / of_int b\<bar>
           \<le> (of_int a / of_int b) / 2 ^ p"
proof -
  define e where "e = ratio_exponent a b"
  define s where "s = int p - e"
  define N where "N = a * 2 ^ nat s"
  define D where "D = b * 2 ^ nat (- s)"
  define n where "n = round_half_even N D"
  define q :: rat where "q = of_int a / of_int b"
  define t :: rat where "t = 2 powi s"
  define u :: rat where "u = 2 powi (- s)"
  have b: "(0::rat) < of_int b" using assms by simp
  have D: "0 < D" using assms by (simp add: D_def)
  have t: "0 < t" and u: "0 < u" by (simp_all add: t_def u_def)
  have tu: "t * u = 1" by (simp add: t_def u_def power_int_minus)
  have rr: "round_ratio p a b 0 = Finite p n (- s)"
    by (simp add: round_ratio_pos [OF assms] n_def N_def D_def s_def e_def)
  have val: "float_val (round_ratio p a b 0) = of_int n * u"
    by (simp add: rr float_val_def u_def)
  have "(of_int N :: rat) / of_int D = q * (2 ^ nat s / 2 ^ nat (- s))"
    by (simp add: N_def D_def q_def)
  then have ND: "(of_int N :: rat) / of_int D = q * t"
    by (simp only: powi_split [symmetric] t_def)
  have near: "\<bar>of_int n - q * t\<bar> \<le> 1 / 2"
    using round_half_even_near [OF D, of N] by (simp only: n_def ND)
  have "of_int n * u - q = (of_int n - q * t) * u"
    using tu by (simp add: algebra_simps)
  then have "\<bar>of_int n * u - q\<bar> = \<bar>of_int n - q * t\<bar> * u"
    using u by (simp add: abs_mult)
  also have "\<dots> \<le> 1 / 2 * u"
    using near u by (intro mult_right_mono) simp_all
  also have "1 / 2 * u = 2 powi (e - 1) / 2 ^ p"
  proof -
    have "- s = (e - 1) - int p + 1" by (simp add: s_def)
    then have "u = 2 powi ((e - 1) - int p + 1)" by (simp only: u_def)
    also have "\<dots> = 2 powi ((e - 1) - int p) * 2"
      by (rule trans [OF power_int_add]) simp_all
    also have "2 powi ((e - 1) - int p) = (2::rat) powi (e - 1) / 2 ^ p"
      by (simp add: power_int_diff)
    finally show ?thesis by simp
  qed
  also have "\<dots> \<le> q / 2 ^ p"
  proof (rule divide_right_mono)
    show "2 powi (e - 1) \<le> q"
      using ratio_exponent_lower [OF assms] by (simp only: e_def q_def)
    show "(0::rat) \<le> 2 ^ p" by simp
  qed
  finally show ?thesis by (simp only: val q_def)
qed

lemma GetPrice_nonzero:
  "Reserve0 s \<noteq> 0 \<Longrightarrow>
   GetPrice s =
     Returned (round_ratio (max (max (BitLen (Reserve1 s)) 64) (max (BitLen (Reserve0 s)) 64))
                 (Reserve1 s) (Reserve0 s) 0)"
  by (simp add: GetPrice_def SetInt_def Let_def)

lemma GetInversePrice_nonzero:
  "Reserve1 s \<noteq> 0 \<Longrightarrow>
   GetInversePrice s =
     Returned (round_ratio (max (max (BitLen (Reserve0 s)) 64) (max (BitLen (Reserve1 s)) 64))
                 (Reserve0 s) (Reserve1 s) 0)"
  by (simp add: GetInversePrice_def SetInt_def Let_def)

lemma round_ratio_error_64:
  assumes "0 < a" "0 < b" "64 \<le> p"
  shows "\<bar>float_val (round_ratio p a b 0) - of_int a / of_int b\<bar>
           \<le> (of_int a / of_int b) / 2 ^ 64"
proof -
  have q: "(0::rat) \<le> of_int a / of_int b" using assms by simp
  have "(2::rat) ^ 64 \<le> 2 ^ p" using assms(3) by (intro power_increasing) simp_all
  then have "(of_int a / of_int b :: rat) / 2 ^ p \<le> (of_int a / of_int b) / 2 ^ 64"
    using q by (intro divide_left_mono) simp_all
  with round_ratio_error [OF assms(1,2), of p] show ?thesis by linarith
qed

lemma product_near_one:
  fixes P Q q1 q2 u :: rat
  assumes "\<bar>P - q1\<bar> \<le> q1 * u" "\<bar>Q - q2\<bar> \<le> q2 * u"
    and "0 < q1" "0 < q2" "q1 * q2 = 1" "0 \<le> u" "u \<le> 1"
  shows "\<bar>P * Q - 1\<bar> \<le> 3 * u"
proof -
  have e: "P * Q - 1 = (P - q1) * Q + q1 * (Q - q2)"
    using assms(5) by (simp add: algebra_simps)
  have Q: "\<bar>Q\<bar> \<le> q2 + q2 * u" using assms(2,4) by linarith
  have "\<bar>(P - q1) * Q\<bar> = \<bar>P - q1\<bar> * \<bar>Q\<bar>" by (simp add: abs_mult)
  also have "\<dots> \<le> (q1 * u) * (q2 + q2 * u)"
    using assms(1) Q by (intro mult_mono) (use assms in simp_all)
  also have "\<dots> = (q1 * q2) * (u * (1 + u))" by (simp add: algebra_simps)
  also have "\<dots> = u * (1 + u)" by (simp add: assms(5))
  finally have a: "\<bar>(P - q1) * Q\<bar> \<le> u * (1 + u)" .
  have "\<bar>q1 * (Q - q2)\<bar> = q1 * \<bar>Q - q2\<bar>" using assms(3) by (simp add: abs_mult)
  also have "\<dots> \<le> q1 * (q2 * u)" using assms(2,3) by (intro mult_left_mono) simp_all
  also have "\<dots> = (q1 * q2) * u" by simp
  also have "\<dots> = u" by (simp add: assms(5))
  finally have b: "\<bar>q1 * (Q - q2)\<bar> \<le> u" .
  have "u * u \<le> u * 1" using assms(6,7) by (intro mult_left_mono) simp_all
  then have c: "u * (1 + u) + u \<le> 3 * u" by (simp add: algebra_simps)
  have "\<bar>P * Q - 1\<bar> \<le> \<bar>(P - q1) * Q\<bar> + \<bar>q1 * (Q - q2)\<bar>"
    unfolding e by (rule abs_triangle_ineq)
  with a b c show ?thesis by linarith
qed

text \<open>
  Claim C5, as the code has it. \<open>GetPrice\<close> and \<open>GetInversePrice\<close> never panic; each
  returns the zero float when its divisor is zero. For positive reserves they return the
  floats nearest to \<open>reserve1 / reserve0\<close> and \<open>reserve0 / reserve1\<close> at a precision of at
  least 64 bits: each is within a relative \<open>2^-64\<close> of the rational quotient, and the product
  of the two is within \<open>3 / 2^64\<close> of 1.
\<close>

theorem price_laws:
  "(\<exists>f. GetPrice s = Returned f) \<and> (\<exists>f. GetInversePrice s = Returned f) \<and>
   (Reserve0 s = 0 \<longrightarrow> GetPrice s = Returned NewFloat0) \<and>
   (Reserve1 s = 0 \<longrightarrow> GetInversePrice s = Returned NewFloat0) \<and>
   float_val NewFloat0 = 0 \<and>
   (0 < Reserve0 s \<and> 0 < Reserve1 s \<longrightarrow>
      (\<exists>p q. GetPrice s = Returned p \<and> GetInversePrice s = Returned q \<and>
         \<bar>float_val p - of_int (Reserve1 s) / of_int (Reserve0 s)\<bar>
            \<le> (of_int (Reserve1 s) / of_int (Reserve0 s)) / 2 ^ 64 \<and>
         \<bar>float_val q - of_int (Reserve0 s) / of_int (Reserve1 s)\<bar>
            \<le> (of_int (Reserve0 s) / of_int (Reserve1 s)) / 2 ^ 64 \<and>
         \<bar>float_val p * float_val q - 1\<bar> \<le> 3 / 2 ^ 64))"
proof (intro conjI impI)
  show "\<exists>f. GetPrice s = Returned f"
    by (cases "Reserve0 s = 0") (simp_all add: GetPrice_nonzero, simp add: GetPrice_def)
  show "\<exists>f. GetInversePrice s = Returned f"
    by (cases "Reserve1 s = 0") (simp_all add: GetInversePrice_nonzero, simp add: GetInversePrice_def)
  show "GetPrice s = Returned NewFloat0" if "Reserve0 s = 0"
    using that by (simp add: GetPrice_def)
  show "GetInversePrice s = Returned NewFloat0" if "Reserve1 s = 0"
    using that by (simp add: GetInversePrice_def)
  show "float_val NewFloat0 = 0" by (simp add: NewFloat0_def float_val_def)
next
  assume pos: "0 < Reserve0 s \<and> 0 < Reserve1 s"
  define r0 where "r0 = Reserve0 s"
  define r1 where "r1 = Reserve1 s"
  have r: "0 < r0" "0 < r1" using pos by (simp_all add: r0_def r1_def)
  define p where "p = round_ratio (max (max (BitLen r1) 64) (max (BitLen r0) 64)) r1 r0 0"
  define q where "q = round_ratio (max (max (BitLen r0) 64) (max (BitLen r1) 64)) r0 r1 0"
  define u :: rat where "u = 1 / 2 ^ 64"
  have gp: "GetPrice s = Returned p"
    using r by (simp add: GetPrice_nonzero p_def r0_def r1_def)
  have gq: "GetInversePrice s = Returned q"
    using r by (simp add: GetInversePrice_nonzero q_def r0_def r1_def)
  have ep: "\<bar>float_val p - of_int r1 / of_int r0\<bar> \<le> (of_int r1 / of_int r0) / 2 ^ 64"
    unfolding p_def using r by (intro round_ratio_error_64) simp_all
  have eq: "\<bar>float_val q - of_int r0 / of_int r1\<bar> \<le> (of_int r0 / of_int r1) / 2 ^ 64"
    unfolding q_def using r by (intro round_ratio_error_64) simp_all
  have "\<bar>float_val p * float_val q - 1\<bar> \<le> 3 * u"
  proof (rule product_near_one)
    show "\<bar>float_val p - of_int r1 / of_int r0\<bar> \<le> (of_int r1 / of_int r0) * u"
      using ep by (simp add: u_def)
    show "\<bar>float_val q - of_int r0 / of_int r1\<bar> \<le> (of_int r0 / of_int r1) * u"
      using eq by (simp add: u_def)
    show "(0::rat) < of_int r1 / of_int r0" using r by simp
    show "(0::rat) < of_int r0 / of_int r1" using r by simp
    show "(of_int r1 / of_int r0 :: rat) * (of_int r0 / of_int r1) = 1" using r by simp
    show "0 \<le> u" "u \<le> 1" by (simp_all add: u_def)
  qed
  then have pr: "\<bar>float_val p * float_val q - 1\<bar> \<le> 3 / 2 ^ 64" by (simp add: u_def)
  show "\<exists>p q. GetPrice s = Returned p \<and> GetInversePrice s = Returned q \<and>
         \<bar>float_val p - of_int (Reserve1 s) / of_int (Reserve0 s)\<bar>
            \<le> (of_int (Reserve1 s) / of_int (Reserve0 s)) / 2 ^ 64 \<and>
         \<bar>float_val q - of_int (Reserve0 s) / of_int (Reserve1 s)\<bar>
            \<le> (of_int (Reserve0 s) / of_int (Reserve1 s)) / 2 ^ 64 \<and>
         \<bar>float_val p * float_val q - 1\<bar> \<le> 3 / 2 ^ 64"
    using gp gq ep eq pr unfolding r0_def r1_def by blast
qed

theorem price_laws_witness:
  "(\<exists>p q. GetPrice (UniswapV2State_init\<lparr>Reserve0 := 1000000, Reserve1 := 500\<rparr>) = Returned p \<and>
          GetInversePrice (UniswapV2State_init\<lparr>Reserve0 := 1000000, Reserve1 := 500\<rparr>) = Returned q \<and>
          \<bar>float_val p - 500 / 1000000\<bar> \<le> (500 / 1000000) / 2 ^ 64 \<and>
          \<bar>float_val q - 1000000 / 500\<bar> \<le> (1000000 / 500) / 2 ^ 64 \<and>
          \<bar>float_val p * float_val q - 1\<bar> \<le> 3 / 2 ^ 64) \<and>
   GetPrice (UniswapV2State_init\<lparr>Reserve0 := 0, Reserve1 := 500\<rparr>) = Returned NewFloat0 \<and>
   GetInversePrice (UniswapV2State_init\<lparr>Reserve0 := 500, Reserve1 := 0\<rparr>) = Returned NewFloat0 \<and>
   float_val NewFloat0 = 0"
  using price_laws [of "UniswapV2State_init\<lparr>Reserve0 := 1000000, Reserve1 := 500\<rparr>"]
    price_laws [of "UniswapV2State_init\<lparr>Reserve0 := 0, Reserve1 := 500\<rparr>"]
    price_laws [of "UniswapV2State_init\<lparr>Reserve0 := 500, Reserve1 := 0\<rparr>"]
  by (simp add: UniswapV2State_init_def)

text \<open>
  The claim as the spec states it fails for the reserves 1 and 41: the inverse price is
  not the rational \<open>1 / 41\<close>, and the product of the two prices is not 1, whether it is
  taken exactly or by \<^verbatim>\<open>big.Float.Mul\<close>.
\<close>

lemma BitLen_1: "BitLen 1 = 1"
  by (simp add: BitLen_def bitlen_nat.simps)

lemma BitLen_41: "BitLen 41 = 6"
  by (simp add: BitLen_def bitlen_nat.simps)

lemma ratio_exponent_41_1: "ratio_exponent 41 1 = 6"
  by (simp add: ratio_exponent_def BitLen_1 BitLen_41)

lemma ratio_exponent_1_41: "ratio_exponent 1 41 = - 5"
  by (simp add: ratio_exponent_def BitLen_1 BitLen_41)

lemma round_ratio_41_1: "round_ratio 64 41 1 0 = Finite 64 11817445422220181504 (- 58)"
  unfolding round_ratio_def Let_def
  by (simp add: ratio_exponent_41_1 round_half_even_def Let_def)

lemma round_ratio_1_41: "round_ratio 64 1 41 0 = Finite 64 14397458789236723212 (- 69)"
  unfolding round_ratio_def Let_def
  by (simp add: ratio_exponent_1_41 round_half_even_def Let_def)

lemma BitLen_product: "BitLen 170141183460469231725922696192849870848 = 127"
  by (simp add: BitLen_def bitlen_nat.simps)

lemma ratio_exponent_product:
  "ratio_exponent 170141183460469231725922696192849870848 1 = 127"
  unfolding ratio_exponent_def Let_def
  by (simp add: BitLen_product BitLen_1)

lemma Mul_41: "Mul (Finite 64 11817445422220181504 (- 58)) (Finite 64 14397458789236723212 (- 69)) =
     Returned (Finite 64 18446744073709551615 (- 64))"
proof -
  have "round_ratio 64 170141183460469231725922696192849870848 1 (- 127) =
          Finite 64 18446744073709551615 (- 64)"
    unfolding round_ratio_def Let_def
    by (simp add: ratio_exponent_product round_half_even_def Let_def)
  then show ?thesis by simp
qed

theorem price_product_counterexample:
  "0 < Reserve0 (UniswapV2State_init\<lparr>Reserve0 := 1, Reserve1 := 41\<rparr>) \<and>
   0 < Reserve1 (UniswapV2State_init\<lparr>Reserve0 := 1, Reserve1 := 41\<rparr>) \<and>
   GetPrice (UniswapV2State_init\<lparr>Reserve0 := 1, Reserve1 := 41\<rparr>) =
     Returned (Finite 64 11817445422220181504 (- 58)) \<and>
   GetInversePrice (UniswapV2State_init\<lparr>Reserve0 := 1, Reserve1 := 41\<rparr>) =
     Returned (Finite 64 14397458789236723212 (- 69)) \<and>
   float_val (Finite 64 14397458789236723212 (- 69)) \<noteq> 1 / 41 \<and>
   float_val (Finite 64 11817445422220181504 (- 58)) *
     float_val (Finite 64 14397458789236723212 (- 69)) \<noteq> 1 \<and>
   Mul (Finite 64 11817445422220181504 (- 58)) (Finite 64 14397458789236723212 (- 69)) =
     Returned (Finite 64 18446744073709551615 (- 64)) \<and>
   float_val (Finite 64 18446744073709551615 (- 64)) \<noteq> 1"
proof -
  have p: "GetPrice (UniswapV2State_init\<lparr>Reserve0 := 1, Reserve1 := 41\<rparr>) =
     Returned (Finite 64 11817445422220181504 (- 58))"
    by (simp add: GetPrice_nonzero UniswapV2State_init_def BitLen_1 BitLen_41 round_ratio_41_1)
  have q: "GetInversePrice (UniswapV2State_init\<lparr>Reserve0 := 1, Reserve1 := 41\<rparr>) =
     Returned (Finite 64 14397458789236723212 (- 69))"
    by (simp add: GetInversePrice_nonzero UniswapV2State_init_def BitLen_1 BitLen_41
          round_ratio_1_41)
  have v1: "float_val (Finite 64 14397458789236723212 (- 69)) \<noteq> 1 / 41"
    by (simp add: float_val_def power_int_minus)
  have v2: "float_val (Finite 64 11817445422220181504 (- 58)) *
     float_val (Finite 64 14397458789236723212 (- 69)) \<noteq> 1"
    by (simp add: float_val_def power_int_minus)
  have v3: "float_val (Finite 64 18446744073709551615 (- 64)) \<noteq> 1"
    by (simp add: float_val_def power_int_minus)
  show ?thesis
    using p q v1 v2 v3 Mul_41 by (simp add: UniswapV2State_init_def)
qed

end
